theory Spec2Isabelle
  imports Main "HOL-Library.Word" "HOL-Library.Multiset"
begin

section \<open>Data model of wisemonk (src/main.go, current revision)\<close>

text \<open>
  The source file holds two revisions of \<^verbatim>\<open>main.go\<close>; the second one (with
  \<^verbatim>\<open>config.json\<close>, \<^verbatim>\<open>searchDiscourse\<close> and the check for a negative
  duration) is the one \<^verbatim>\<open>main_test.go\<close> exercises, and it is the one embedded here.

  Strings are Go strings: lists of bytes. A \<^verbatim>\<open>time.Duration\<close> is an \<^verbatim>\<open>int64\<close>
  of nanoseconds, a word read with \<open>sint\<close>. An instant (\<^verbatim>\<open>time.Time\<close>) is the
  number of nanoseconds since the Unix epoch, an unbounded integer: the range of
  \<^verbatim>\<open>time.Time\<close> is far wider than \<^verbatim>\<open>int64\<close> nanoseconds, and instants are only
  shifted by a duration and subtracted. \<^verbatim>\<open>Bucket.utime\<close> is an \<^verbatim>\<open>int64\<close> that
  is only stored and compared, never computed with, so it is kept as the integer it
  denotes. \<^verbatim>\<open>Bucket.count\<close> is a Go \<^verbatim>\<open>int\<close> that is incremented and summed: a
  64-bit word, whose addition wraps as Go's does. The field is written \<open>count'\<close>
  here, since the multiset library has a constant \<open>count\<close>.
\<close>

type_synonym Duration = "64 word"
type_synonym Time = int

record Bucket =
  utime :: int
  count' :: "64 word"
  msgs :: "string list"

record Msg =
  Channel :: string
  User :: string
  Timestamp :: string
  Text :: string

record Counter =
  buckets :: "Bucket list"
  ChannelId :: string
  meditationEnd :: Time
  Interval :: string
  MaxMsg :: "64 word"
  SearchOver :: "string list"
  CreateTopicIn :: string

record Topic =
  Title :: string
  Raw :: string
  Category :: string

record TopicBody =
  topic_id :: int
  topic_slug :: string

record SearchTopic =
  st_Id :: int
  st_Slug :: string
  st_Category :: int

text \<open>
  An HTTP exchange either fails (\<^verbatim>\<open>err != nil\<close>) or yields a status code and a body;
  reading the body may fail too (\<open>None\<close>).
\<close>

datatype HttpReply = HttpErr | HttpResp nat "string option"

text \<open>
  Everything the functions read that is neither an argument nor code of the repository:
  the package-level variables (\<^verbatim>\<open>conf\<close>, \<^verbatim>\<open>yoda\<close>, \<^verbatim>\<open>discourseCategory\<close>), the
  network, and the functions of Go's standard library whose behaviour is taken as given
  (each field is named after the Go function it stands for).
  \<^item> \<open>strconv_ParseFloat_int64 s\<close> is \<^verbatim>\<open>int64(tsf)\<close> for the \<^verbatim>\<open>tsf\<close> that
    \<^verbatim>\<open>strconv.ParseFloat(s, 64)\<close> returns, \<open>None\<close> when it returns an error;
  \<^item> \<open>fmt_Minutes d\<close> is \<^verbatim>\<open>fmt.Sprintf("%.0f", d.Minutes())\<close>;
  \<^item> \<open>sort_Sort\<close> is \<^verbatim>\<open>sort.Sort(ByTimestamp(...))\<close>, which Go does not promise to be
    stable;
  \<^item> \<open>rand_Intn n\<close> is the value \<^verbatim>\<open>rand.Intn(n)\<close> returns this time.
\<close>

record Env =
  conf_Token :: string
  conf_DiscPrefix :: string
  conf_DiscKey :: string
  yoda :: string
  discourseCategory :: "int \<rightharpoonup> string"
  time_ParseDuration :: "string \<Rightarrow> Duration option"
  time_DurationString :: "Duration \<Rightarrow> string"
  fmt_Minutes :: "Duration \<Rightarrow> string"
  strconv_ParseFloat_int64 :: "string \<Rightarrow> int option"
  sort_Sort :: "Bucket list \<Rightarrow> Bucket list"
  utf8_RuneCount :: "string \<Rightarrow> nat"
  url_QueryEscape :: "string \<Rightarrow> string"
  http_Post :: "string \<Rightarrow> Topic \<Rightarrow> HttpReply"
  http_Get :: "string \<Rightarrow> HttpReply"
  json_TopicBody :: "string \<Rightarrow> TopicBody option"
  json_SearchResponse :: "string \<Rightarrow> SearchTopic list option"
  rand_Intn :: "nat \<Rightarrow> nat"

text \<open>
  What \<^verbatim>\<open>sort.Sort\<close> promises for \<^verbatim>\<open>ByTimestamp\<close>: the result is a permutation of
  the argument, ascending in \<open>utime\<close>.
\<close>

definition sorts_by_timestamp :: "(Bucket list \<Rightarrow> Bucket list) \<Rightarrow> bool" where
  "sorts_by_timestamp srt =
     (\<forall>bs. mset (srt bs) = mset bs \<and> sorted (map utime (srt bs)))"

text \<open>
  The ways a run ends without returning: \<^verbatim>\<open>log.Fatal\<close> (the process exits) and the
  run-time panic of an index out of range.
\<close>

datatype abort =
  FatalChannelMismatch | FatalTimestamp | FatalInterval
  | FatalHttp | FatalStatus | FatalForbidden | FatalBody | FatalDecode
  | PanicIndex

section \<open>Time\<close>

definition time_Add :: "Time \<Rightarrow> Duration \<Rightarrow> Time" where
  "time_Add t d = t + sint d"

text \<open>\<^verbatim>\<open>Time.Sub\<close> saturates at the largest and the smallest duration.\<close>

definition time_Sub :: "Time \<Rightarrow> Time \<Rightarrow> Duration" where
  "time_Sub t u =
     (if t - u > 2 ^ 63 - 1 then word_of_int (2 ^ 63 - 1)
      else if t - u < - (2 ^ 63) then word_of_int (- (2 ^ 63))
      else word_of_int (t - u))"

text \<open>\<^verbatim>\<open>Time.Unix\<close>: whole seconds since the epoch, rounded down.\<close>

definition time_Unix :: "Time \<Rightarrow> int" where
  "time_Unix t = t div 1000000000"

definition time_Hour :: Duration where
  "time_Hour = 3600000000000"

definition MeditationEnd :: "Counter \<Rightarrow> Time \<Rightarrow> Duration" where
  "MeditationEnd c now = time_Sub (meditationEnd c) now"

definition SetMeditationEnd :: "Counter \<Rightarrow> Time \<Rightarrow> Duration \<Rightarrow> Counter" where
  "SetMeditationEnd c now d = c\<lparr>meditationEnd := time_Add now d\<rparr>"

section \<open>The bucket store: Count\<close>

text \<open>
  The first loop of \<^verbatim>\<open>Count\<close>: \<^verbatim>\<open>idx\<close> starts at 0 and is set to the index of the
  first bucket younger than \<^verbatim>\<open>timeSince\<close>; when there is none it stays 0.
\<close>

fun Count_idx :: "int \<Rightarrow> Bucket list \<Rightarrow> nat \<Rightarrow> nat" where
  "Count_idx timeSince [] i = 0"
| "Count_idx timeSince (b # bs) i =
     (if utime b > timeSince then i else Count_idx timeSince bs (Suc i))"

text \<open>
  The second loop: \<^verbatim>\<open>for i := idx; i < len(c.buckets); i++ { c.buckets[i-idx] = c.buckets[i] }\<close>.
\<close>

function Count_shift :: "nat \<Rightarrow> nat \<Rightarrow> Bucket list \<Rightarrow> Bucket list" where
  "Count_shift idx i bs =
     (if i < length bs then Count_shift idx (Suc i) (bs[i - idx := bs ! i]) else bs)"
  by pat_completeness auto
termination
  by (relation "measure (\<lambda>(idx, i, bs). length bs - i)") auto

declare Count_shift.simps [simp del]

text \<open>
  What the two loops leave in the store: when \<^verbatim>\<open>idx > 0\<close> the buckets from
  \<^verbatim>\<open>idx\<close> on are shifted to the front and the slice is cut to
  \<^verbatim>\<open>c.buckets[0 : len(c.buckets)-idx]\<close>; when \<^verbatim>\<open>idx\<close> is 0 nothing moves.
\<close>

definition Count_compact :: "int \<Rightarrow> Bucket list \<Rightarrow> Bucket list" where
  "Count_compact timeSince bs =
     (let idx = Count_idx timeSince bs 0
      in if idx > 0 then take (length bs - idx) (Count_shift idx idx bs) else bs)"

text \<open>
  \<^verbatim>\<open>Count\<close> reads the clock once (\<open>now\<close>). It returns the count and leaves the
  compacted store in the counter; an interval that does not parse is fatal.
\<close>

definition Count :: "Env \<Rightarrow> Time \<Rightarrow> Counter \<Rightarrow> abort + (64 word \<times> Counter)" where
  "Count w now c =
     (let bs = sort_Sort w (buckets c) in
      case time_ParseDuration w (Interval c) of
        None \<Rightarrow> Inl FatalInterval
      | Some interval \<Rightarrow>
          let timeSince = time_Unix (time_Add now (- interval));
              bs' = Count_compact timeSince bs
          in Inr (foldl (\<lambda>n b. n + count' b) 0 bs', c\<lparr>buckets := bs'\<rparr>))"

section \<open>The bucket store: Increment\<close>

text \<open>
  \<^verbatim>\<open>strings.Replace(s, old, new, -1)\<close> for a non-empty \<open>old\<close>: the occurrences of
  \<open>old\<close> that do not overlap, from the left. (\<^verbatim>\<open>substituteUsernames\<close> calls it
  with matches of the user pattern only, which are twelve bytes long; for an empty
  \<open>old\<close>, which Go treats differently, this leaves \<open>s\<close> as it is.)
\<close>

function strings_Replace :: "string \<Rightarrow> string \<Rightarrow> string \<Rightarrow> string" where
  "strings_Replace s old new =
     (if s = [] \<or> old = [] then s
      else if take (length old) s = old
        then new @ strings_Replace (drop (length old) s) old new
        else hd s # strings_Replace (tl s) old new)"
  by pat_completeness auto
termination
  by (relation "measure (\<lambda>(s, old, new). length s)") auto

declare strings_Replace.simps [simp del]

text \<open>The pattern \<^verbatim>\<open><@U[A-Z0-9]{8}>\<close>, matched against the whole of \<open>u\<close>.\<close>

definition isUpperOrDigit :: "char \<Rightarrow> bool" where
  "isUpperOrDigit ch =
     ((65 \<le> (of_char ch :: nat) \<and> (of_char ch :: nat) \<le> 90)
      \<or> (48 \<le> (of_char ch :: nat) \<and> (of_char ch :: nat) \<le> 57))"

definition userRegex_matches :: "string \<Rightarrow> bool" where
  "userRegex_matches u =
     (length u = 12 \<and> take 3 u = ''<@U''
      \<and> list_all isUpperOrDigit (take 8 (drop 3 u))
      \<and> drop 11 u = ''>'')"

text \<open>
  \<^verbatim>\<open>userRegex.FindAllString(text, -1)\<close>: the successive matches, leftmost first,
  none overlapping.
\<close>

function userRegex_FindAllString :: "string \<Rightarrow> string list" where
  "userRegex_FindAllString s =
     (if s = [] then []
      else if userRegex_matches (take 12 s)
        then take 12 s # userRegex_FindAllString (drop 12 s)
        else userRegex_FindAllString (tl s))"
  by pat_completeness auto
termination
  by (relation "measure length") auto

declare userRegex_FindAllString.simps [simp del]

text \<open>
  The loop of \<^verbatim>\<open>substituteUsernames\<close> over the matches: the user id is
  \<^verbatim>\<open>u[2 : len(u)-1]\<close>, and a match whose id is in \<open>memmap\<close> is replaced everywhere.
\<close>

fun substituteUsernames_loop :: "string list \<Rightarrow> (string \<rightharpoonup> string) \<Rightarrow> string \<Rightarrow> string" where
  "substituteUsernames_loop [] memmap text = text"
| "substituteUsernames_loop (u # us) memmap text =
     (case memmap (take (length u - 3) (drop 2 u)) of
        Some uname \<Rightarrow>
          substituteUsernames_loop us memmap (strings_Replace text u (''@'' @ uname))
      | None \<Rightarrow> substituteUsernames_loop us memmap text)"

definition substituteUsernames :: "string \<Rightarrow> (string \<rightharpoonup> string) \<Rightarrow> string" where
  "substituteUsernames text memmap =
     substituteUsernames_loop (userRegex_FindAllString text) memmap text"

text \<open>
  \<^verbatim>\<open>fmt.Sprintf("%-14s: %s", memmap[m.User], m.Text)\<close>: a missing key reads as the
  empty string, and the name is padded on the right to fourteen runes.
\<close>

definition formatMsg :: "Env \<Rightarrow> (string \<rightharpoonup> string) \<Rightarrow> string \<Rightarrow> string \<Rightarrow> string" where
  "formatMsg w memmap user text =
     (let name = (case memmap user of Some n \<Rightarrow> n | None \<Rightarrow> [])
      in name @ replicate (14 - utf8_RuneCount w name) CHR '' '' @ '': '' @ text)"

text \<open>
  The search loop of \<^verbatim>\<open>Increment\<close>, \<^verbatim>\<open>for i := len(c.buckets) - 1; i >= 0; i--\<close>:
  the second argument is \<open>i + 1\<close>, and the result is the index where the loop breaks.
\<close>

fun Increment_find :: "int \<Rightarrow> nat \<Rightarrow> Bucket list \<Rightarrow> nat option" where
  "Increment_find ts 0 bs = None"
| "Increment_find ts (Suc i) bs =
     (if utime (bs ! i) = ts then Some i else Increment_find ts i bs)"

text \<open>The body of the loop on a hit: \<^verbatim>\<open>b.count++; b.msgs = append(b.msgs, msg)\<close>.\<close>

definition Increment_bucket :: "Bucket \<Rightarrow> string \<Rightarrow> Bucket" where
  "Increment_bucket b msg = b\<lparr>count' := count' b + 1, msgs := msgs b @ [msg]\<rparr>"

definition Increment :: "Env \<Rightarrow> (string \<rightharpoonup> string) \<Rightarrow> Counter \<Rightarrow> Msg \<Rightarrow> abort + Counter" where
  "Increment w memmap c m =
     (if Channel m \<noteq> ChannelId c then Inl FatalChannelMismatch
      else case strconv_ParseFloat_int64 w (Timestamp m) of
        None \<Rightarrow> Inl FatalTimestamp
      | Some ts \<Rightarrow>
          let msg = formatMsg w memmap (User m) (substituteUsernames (Text m) memmap);
              bs = buckets c
          in (case Increment_find ts (length bs) bs of
                Some i \<Rightarrow>
                  Inr (c\<lparr>buckets := list_update bs i (Increment_bucket (bs ! i) msg)\<rparr>)
              | None \<Rightarrow>
                  Inr (c\<lparr>buckets := bs @ [\<lparr>utime = ts, count' = 1, msgs = [msg]\<rparr>]\<rparr>)))"

text \<open>
  A sequence of \<open>Increment\<close> calls, one for each message of a list; the first fatal
  exit ends it.
\<close>

fun Increment_all :: "Env \<Rightarrow> (string \<rightharpoonup> string) \<Rightarrow> Counter \<Rightarrow> Msg list \<Rightarrow> abort + Counter" where
  "Increment_all w memmap c [] = Inr c"
| "Increment_all w memmap c (m # ms) =
     (case Increment w memmap c m of
        Inl e \<Rightarrow> Inl e
      | Inr c' \<Rightarrow> Increment_all w memmap c' ms)"

text \<open>
  A list of messages that \<open>Increment\<close> accepts: each is of the counter's channel and
  has a timestamp that parses.
\<close>

definition recordable :: "Env \<Rightarrow> Counter \<Rightarrow> Msg list \<Rightarrow> bool" where
  "recordable w c ms =
     (\<forall>m \<in> set ms. Channel m = ChannelId c \<and> strconv_ParseFloat_int64 w (Timestamp m) \<noteq> None)"

section \<open>Strings, numbers and the command patterns\<close>

definition isDigit :: "char \<Rightarrow> bool" where
  "isDigit ch = (48 \<le> (of_char ch :: nat) \<and> (of_char ch :: nat) \<le> 57)"

definition digitVal :: "char \<Rightarrow> int" where
  "digitVal ch = int (of_char ch) - 48"

text \<open>
  \<^verbatim>\<open>strconv.Atoi\<close>: an optional sign, then at least one decimal digit and nothing
  else; a value outside \<^verbatim>\<open>int\<close> is a range error.
\<close>

definition strconv_Atoi :: "string \<Rightarrow> int option" where
  "strconv_Atoi s =
     (let neg = (s \<noteq> [] \<and> hd s = CHR ''-'');
          ds = (if s \<noteq> [] \<and> (hd s = CHR ''-'' \<or> hd s = CHR ''+'') then tl s else s);
          n = foldl (\<lambda>n ch. 10 * n + digitVal ch) 0 ds;
          v = (if neg then - n else n)
      in if ds = [] \<or> \<not> list_all isDigit ds then None
         else if v < - (2 ^ 63) \<or> 2 ^ 63 - 1 < v then None
         else Some v)"

text \<open>The verbs \<^verbatim>\<open>%d\<close> and \<^verbatim>\<open>%2d\<close> of \<^verbatim>\<open>fmt\<close>.\<close>

function showNat :: "nat \<Rightarrow> string" where
  "showNat n =
     (if n < 10 then [char_of (48 + n)] else showNat (n div 10) @ [char_of (48 + n mod 10)])"
  by pat_completeness auto
termination
  by (relation "measure id") auto

declare showNat.simps [simp del]

definition showInt :: "int \<Rightarrow> string" where
  "showInt i = (if i < 0 then CHR ''-'' # showNat (nat (- i)) else showNat (nat i))"

definition showInt2 :: "int \<Rightarrow> string" where
  "showInt2 i = replicate (2 - length (showInt i)) CHR '' '' @ showInt i"

text \<open>
  In a Go regular expression \<^verbatim>\<open>.\<close> matches any character but the newline, so a
  greedy \<^verbatim>\<open>.+\<close> that nothing follows takes the rest of the line.
\<close>

definition restOfLine :: "string \<Rightarrow> string" where
  "restOfLine s = takeWhile (\<lambda>ch. ch \<noteq> CHR 0x0A) s"

text \<open>
  \<^verbatim>\<open>FindStringSubmatch\<close> for a pattern \<^verbatim>\<open>lit(.+)\<close> with a non-empty literal
  \<open>lit\<close>: the leftmost place where the literal stands with at least one more character
  on its line; the result is the capture (\<^verbatim>\<open>res[1]\<close>), \<open>None\<close> for \<^verbatim>\<open>nil\<close>.
\<close>

fun FindStringSubmatch_lit :: "string \<Rightarrow> string \<Rightarrow> string option" where
  "FindStringSubmatch_lit lit [] = None"
| "FindStringSubmatch_lit lit (ch # s) =
     (if take (length lit) (ch # s) = lit \<and> restOfLine (drop (length lit) (ch # s)) \<noteq> []
      then Some (restOfLine (drop (length lit) (ch # s)))
      else FindStringSubmatch_lit lit s)"

definition meditateRegex :: "string \<Rightarrow> string option" where
  "meditateRegex = FindStringSubmatch_lit ''wisemonk meditate for ''"

definition createRegex :: "string \<Rightarrow> string option" where
  "createRegex = FindStringSubmatch_lit ''wisemonk create topic ''"

text \<open>
  The tail \<^verbatim>\<open>(.+) (\d)\<close> of the query pattern on the rest \<open>l\<close> of a line: the places
  \<open>j\<close> where the first group can end, that is \<open>j \<ge> 1\<close> with a space at \<open>j\<close> and a
  digit after it. The greedy group takes the last of them.
\<close>

definition queryRegex_ends :: "string \<Rightarrow> nat list" where
  "queryRegex_ends l =
     filter (\<lambda>j. l ! j = CHR '' '' \<and> isDigit (l ! Suc j)) [1..<length l - 1]"

text \<open>
  \<^verbatim>\<open>queryRegex.FindStringSubmatch\<close> for \<^verbatim>\<open>wisemonk query (.+) (\d)\<close>: the two
  captures of the leftmost match.
\<close>

fun queryRegex :: "string \<Rightarrow> (string \<times> string) option" where
  "queryRegex [] = None"
| "queryRegex (ch # s) =
     (let lit = ''wisemonk query '';
          l = restOfLine (drop (length lit) (ch # s));
          js = queryRegex_ends l
      in if take (length lit) (ch # s) = lit \<and> js \<noteq> []
         then Some (take (last js) l, [l ! Suc (last js)])
         else queryRegex s)"

section \<open>Titles and topics\<close>

text \<open>\<^verbatim>\<open>strings.Trim(title, " ")\<close> strips the spaces at both ends, and only spaces.\<close>

definition strings_Trim_space :: "string \<Rightarrow> string" where
  "strings_Trim_space s =
     rev (dropWhile (\<lambda>ch. ch = CHR '' '') (rev (dropWhile (\<lambda>ch. ch = CHR '' '') s)))"

text \<open>\<^verbatim>\<open>strings.LastIndex(t, " ")\<close>: the index of the last space, or -1.\<close>

definition strings_LastIndex_space :: "string \<Rightarrow> int" where
  "strings_LastIndex_space t =
     (case filter (\<lambda>i. t ! i = CHR '' '') [0..<length t] of
        [] \<Rightarrow> - 1
      | i # is \<Rightarrow> int (last (i # is)))"

definition titlePrefix :: string where
  "titlePrefix = ''Topic created by wisemonk with title: ''"

definition sanitizeTitle :: "string \<Rightarrow> string" where
  "sanitizeTitle title =
     (let t = strings_Trim_space title;
          minLen = 20;
          maxLen = 100
      in if length t < minLen then titlePrefix @ t
         else let t = (if length t > maxLen then take maxLen t else t);
                  idx = strings_LastIndex_space t
              in if idx \<noteq> - 1 \<and> idx \<ge> int minLen then take (nat idx) t else t)"

definition discourseQuery :: "Env \<Rightarrow> string \<Rightarrow> string \<Rightarrow> string" where
  "discourseQuery w suffix args =
     conf_DiscPrefix w @ ''/'' @ suffix @ ''?api_key='' @ conf_DiscKey w
       @ ''&api_username=wisemonk&'' @ args"

definition topicUrl :: "Env \<Rightarrow> TopicBody \<Rightarrow> string" where
  "topicUrl w tb = conf_DiscPrefix w @ ''/t/'' @ topic_slug tb @ ''/'' @ showInt (topic_id tb)"

text \<open>
  The transcript loop of \<^verbatim>\<open>createTopic\<close>: one numbered line for each message of
  each bucket, in order; the number \<open>n\<close> runs on from bucket to bucket.
\<close>

fun transcript_msgs :: "int \<Rightarrow> string list \<Rightarrow> string" where
  "transcript_msgs n [] = []"
| "transcript_msgs n (m # ms) =
     ''['' @ showInt2 n @ ''] '' @ m @ [CHR 0x0A] @ transcript_msgs (n + 1) ms"

fun transcript :: "int \<Rightarrow> Bucket list \<Rightarrow> string" where
  "transcript n [] = []"
| "transcript n (b # bs) =
     transcript_msgs n (msgs b) @ transcript (n + int (length (msgs b))) bs"

text \<open>
  \<^verbatim>\<open>createTopic\<close> posts the topic. The post failing, the status 403, a body that
  cannot be read and a reply that does not decode are fatal; any other status but 200
  is logged and gives the empty url.
\<close>

definition createTopic :: "Env \<Rightarrow> Counter \<Rightarrow> string \<Rightarrow> abort + string" where
  "createTopic w c title =
     (let t = \<lparr>Title = title,
               Raw = [CHR 0x60, CHR 0x60, CHR 0x60] @ transcript 1 (buckets c)
                     @ [CHR 0x60, CHR 0x60, CHR 0x60],
               Category = CreateTopicIn c\<rparr>
      in case http_Post w (discourseQuery w ''posts.json'' []) t of
           HttpErr \<Rightarrow> Inl FatalHttp
         | HttpResp status body \<Rightarrow>
             if status \<noteq> 200 then
               (if status = 403 then Inl FatalForbidden
                else (case body of None \<Rightarrow> Inl FatalBody | Some b \<Rightarrow> Inr []))
             else (case body of
                     None \<Rightarrow> Inl FatalDecode
                   | Some b \<Rightarrow>
                       (case json_TopicBody w b of
                          None \<Rightarrow> Inl FatalDecode
                        | Some tb \<Rightarrow> Inr (topicUrl w tb))))"

section \<open>The notifier\<close>

text \<open>An outbound message: the text and the channel it is sent to.\<close>

type_synonym Outgoing = "string \<times> string"

definition proverbs :: "string list" where
  "proverbs =
     [''Don't communicate by sharing memory, share memory by communicating.'',
      ''Concurrency is not parallelism.'',
      ''Channels orchestrate; mutexes serialize.'',
      ''The bigger the interface, the weaker the abstraction.'',
      ''Make the zero value useful.'',
      ''interface{} says nothing.'',
      ''Gofmt's style is no one's favorite, yet gofmt is everyone's favorite.'',
      ''A little copying is better than a little dependency.'',
      ''Syscall must always be guarded with build tags.'',
      ''Cgo must always be guarded with build tags.'',
      ''Cgo is not Go.'',
      ''With the unsafe package there are no guarantees.'',
      ''Clear is better than clever.'',
      ''Reflection is never clear.'',
      ''Errors are values.'',
      ''Don't just check errors, handle them gracefully.'',
      ''Design the architecture, name the components, document the details.'',
      ''Documentation is for users.'',
      ''Don't panic.'']"

text \<open>
  The message of \<^verbatim>\<open>callYoda\<close>,
  \<^verbatim>\<open>fmt.Sprintf("```%s\n%s\n%s```", string(yoda), proverbs[rand.Intn(len(proverbs))], m)\<close>:
  the picture, a proverb and the closing line \<open>m\<close>, between two runs of three
  backquotes. (\<^verbatim>\<open>rand.Intn(n)\<close> is below \<open>n\<close>.)
\<close>

definition callYoda_msg :: "Env \<Rightarrow> string \<Rightarrow> string" where
  "callYoda_msg w m =
     [CHR 0x60, CHR 0x60, CHR 0x60] @ yoda w @ [CHR 0x0A]
       @ proverbs ! (rand_Intn w (length proverbs) mod length proverbs)
       @ [CHR 0x0A] @ m @ [CHR 0x60, CHR 0x60, CHR 0x60]"

text \<open>\<^verbatim>\<open>callYoda\<close> empties the store and sends this one message.\<close>

definition callYoda :: "Env \<Rightarrow> Counter \<Rightarrow> string \<Rightarrow> Counter \<times> Outgoing list" where
  "callYoda w c m = (c\<lparr>buckets := []\<rparr>, [(callYoda_msg w m, ChannelId c)])"

text \<open>
  \<^verbatim>\<open>sendMessage\<close>: without a key the closing line is empty; with one, the first
  message of the first bucket becomes the title of a new topic (an empty store, or an
  empty first bucket, is an index out of range), and the closing line is the link when
  \<^verbatim>\<open>createTopic\<close> returns one.
\<close>

definition sendMessage :: "Env \<Rightarrow> Counter \<Rightarrow> abort + (Counter \<times> Outgoing list)" where
  "sendMessage w c =
     (if conf_DiscKey w = [] then Inr (callYoda w c [])
      else case buckets c of
        [] \<Rightarrow> Inl PanicIndex
      | b # bs \<Rightarrow>
          (case msgs b of
             [] \<Rightarrow> Inl PanicIndex
           | m0 # ms \<Rightarrow>
               (case createTopic w c (sanitizeTitle m0) of
                  Inl e \<Rightarrow> Inl e
                | Inr url \<Rightarrow>
                    Inr (callYoda w c
                      (if url \<noteq> [] then ''Please move your discussion to '' @ url else [])))))"

section \<open>The commands\<close>

definition createNewTopic :: "Env \<Rightarrow> Counter \<Rightarrow> string \<Rightarrow> abort + (Counter \<times> Outgoing list)" where
  "createNewTopic w c m =
     (if conf_DiscKey w = [] then Inr (c, [])
      else case createRegex m of
        None \<Rightarrow> Inr (c, [])
      | Some t \<Rightarrow>
          (case createTopic w c (sanitizeTitle t) of
             Inl e \<Rightarrow> Inl e
           | Inr url \<Rightarrow>
               Inr (c\<lparr>buckets := []\<rparr>,
                    [(''New topic created with url: '' @ url, ChannelId c)])))"

text \<open>
  A goroutine that a handler starts and does not wait for: the one of
  \<^verbatim>\<open>askToMeditate\<close>, which sleeps for \<open>d\<close> and then empties the store, and
  \<^verbatim>\<open>go sendMessage(c, rtm)\<close>.
\<close>

datatype Goroutine = SleepThenClear Duration | GoSendMessage

text \<open>
  \<^verbatim>\<open>askToMeditate\<close> reads the clock twice: \<open>now1\<close> in \<^verbatim>\<open>MeditationEnd\<close> and
  \<open>now2\<close> in \<^verbatim>\<open>SetMeditationEnd\<close>. It returns the reply, the counter and the
  goroutines it has started.
\<close>

definition askToMeditate ::
  "Env \<Rightarrow> Time \<Rightarrow> Time \<Rightarrow> Counter \<Rightarrow> string \<Rightarrow> string \<times> Counter \<times> Goroutine list" where
  "askToMeditate w now1 now2 c m =
     (case meditateRegex m of
        None \<Rightarrow> ([], c, [])
      | Some s \<Rightarrow>
          (case time_ParseDuration w s of
             None \<Rightarrow> (''Sorry, I don't understand you.'', c, [])
           | Some d \<Rightarrow>
               if sint d < 0
                 then (''Sorry, going back in time is not what I can do.'', c, [])
               else if sint d \<ge> sint time_Hour
                 then (''It's hard to meditate for more than an hour at one go you know.'', c, [])
               else if sint (MeditationEnd c now1) > 0
                 then (''I am meditating. My meditation will finish in ''
                       @ fmt_Minutes w (MeditationEnd c now1) @ '' mins'', c, [])
               else (''Okay, I am going to meditate for '' @ time_DurationString w d,
                     SetMeditationEnd c now2 d, [SleepThenClear d])))"

text \<open>
  \<^verbatim>\<open>runQueryAndParseResponse\<close>: every failure is fatal. \<open>unmarshal\<close> is
  \<^verbatim>\<open>json.Unmarshal\<close> at the type of \<^verbatim>\<open>data\<close>.
\<close>

definition runQueryAndParseResponse ::
  "Env \<Rightarrow> string \<Rightarrow> (string \<Rightarrow> 'a option) \<Rightarrow> abort + 'a" where
  "runQueryAndParseResponse w q unmarshal =
     (case http_Get w q of
        HttpErr \<Rightarrow> Inl FatalHttp
      | HttpResp status body \<Rightarrow>
          if status \<noteq> 200 then Inl FatalStatus
          else (case body of
                  None \<Rightarrow> Inl FatalBody
                | Some b \<Rightarrow>
                    (case unmarshal b of None \<Rightarrow> Inl FatalDecode | Some v \<Rightarrow> Inr v)))"

text \<open>
  \<^verbatim>\<open>filterTopics\<close> keeps a topic when the name of its category (the empty string
  for a category the map does not hold) is among \<^verbatim>\<open>c.SearchOver\<close>.
\<close>

definition filterTopics :: "Env \<Rightarrow> Counter \<Rightarrow> SearchTopic list \<Rightarrow> SearchTopic list" where
  "filterTopics w c topics =
     filter (\<lambda>t. list_ex
        (\<lambda>cat. (case discourseCategory w (st_Category t) of Some n \<Rightarrow> n | None \<Rightarrow> []) = cat)
        (SearchOver c)) topics"

definition searchReplyUnknown :: string where
  "searchReplyUnknown = ''Sorry, I didn't understand you.''"

text \<open>
  The loop of \<^verbatim>\<open>searchDiscourse\<close> that writes one line for each topic,
  \<^verbatim>\<open>fmt.Sprintf("%s/t/%s/%d\n", conf.DiscPrefix, t.Slug, t.Id)\<close>.
\<close>

definition searchDiscourse_lines :: "Env \<Rightarrow> SearchTopic list \<Rightarrow> string" where
  "searchDiscourse_lines w ts =
     concat (map (\<lambda>t. conf_DiscPrefix w @ ''/t/'' @ st_Slug t @ ''/'' @ showInt (st_Id t)
                        @ [CHR 0x0A]) ts)"

text \<open>
  \<^verbatim>\<open>searchDiscourse\<close> returns the messages it sends. Slicing
  \<^verbatim>\<open>sr.Topics[:maxResults]\<close> with a negative bound would be a panic.
\<close>

definition searchDiscourse :: "Env \<Rightarrow> Counter \<Rightarrow> string \<Rightarrow> abort + Outgoing list" where
  "searchDiscourse w c m =
     (if conf_DiscKey w = [] then Inr []
      else case queryRegex m of
        None \<Rightarrow> Inr []
      | Some (query, digit) \<Rightarrow>
          (case strconv_Atoi digit of
             None \<Rightarrow> Inr [(searchReplyUnknown, ChannelId c)]
           | Some maxResults \<Rightarrow>
               (case runQueryAndParseResponse w
                       (discourseQuery w ''search.json''
                          (''q='' @ url_QueryEscape w query @ ''&order='' @ ''views''))
                       (json_SearchResponse w) of
                  Inl e \<Rightarrow> Inl e
                | Inr topics \<Rightarrow>
                    let ts = filterTopics w c topics in
                    if int (length ts) > maxResults \<and> maxResults < 0 then Inl PanicIndex
                    else
                      let ts = (if int (length ts) > maxResults
                                then take (nat maxResults) ts else ts);
                          buf = searchDiscourse_lines w ts
                      in if buf \<noteq> [] then Inr [(buf, ChannelId c)]
                         else Inr [(''Sorry, I didn't find anything.'',
                                    ChannelId c)])))"

section \<open>The dispatch loop\<close>

text \<open>
  One round of the \<^verbatim>\<open>select\<close> of \<^verbatim>\<open>checkOrIncr\<close> is one of two handlers. What a
  handler leaves behind: the counter, the messages sent (in order) and the goroutines
  started.
\<close>

record Outcome =
  counter :: Counter
  sent :: "Outgoing list"
  started :: "Goroutine list"

text \<open>
  The case \<^verbatim>\<open>msg := <-c.messages\<close>: the three commands run one after the other on
  the text, whatever the others found, and then the message is recorded.
\<close>

definition checkOrIncr_message ::
  "Env \<Rightarrow> (string \<rightharpoonup> string) \<Rightarrow> Time \<Rightarrow> Time \<Rightarrow> Counter \<Rightarrow> Msg \<Rightarrow> abort + Outcome" where
  "checkOrIncr_message w memmap now1 now2 c msg =
     (case searchDiscourse w c (Text msg) of
        Inl e \<Rightarrow> Inl e
      | Inr sent1 \<Rightarrow>
          (case createNewTopic w c (Text msg) of
             Inl e \<Rightarrow> Inl e
           | Inr (c1, sent2) \<Rightarrow>
               (case askToMeditate w now1 now2 c1 (Text msg) of
                  (m, c2, gs) \<Rightarrow>
                    (case Increment w memmap c2 msg of
                       Inl e \<Rightarrow> Inl e
                     | Inr c3 \<Rightarrow>
                         Inr \<lparr>counter = c3,
                              sent = sent1 @ sent2
                                @ (if m \<noteq> [] then [(m, ChannelId c2)] else []),
                              started = gs\<rparr>))))"

text \<open>
  The case \<^verbatim>\<open><-ticker.C\<close>: \<^verbatim>\<open>MeditationEnd\<close> reads the clock at \<open>now1\<close>,
  \<^verbatim>\<open>Count\<close> at \<open>now2\<close>. The comparison \<^verbatim>\<open>count >= c.MaxMsg\<close> is signed.
\<close>

definition checkOrIncr_tick :: "Env \<Rightarrow> Time \<Rightarrow> Time \<Rightarrow> Counter \<Rightarrow> abort + Outcome" where
  "checkOrIncr_tick w now1 now2 c =
     (if sint (MeditationEnd c now1) < 0 then
        (case Count w now2 c of
           Inl e \<Rightarrow> Inl e
         | Inr (n, c') \<Rightarrow>
             Inr \<lparr>counter = c', sent = [],
                  started = (if sint n \<ge> sint (MaxMsg c') then [GoSendMessage] else [])\<rparr>)
      else Inr \<lparr>counter = c, sent = [], started = []\<rparr>)"

section \<open>A test environment\<close>

text \<open>
  Test doubles in the manner of \<^verbatim>\<open>main_test.go\<close> (its mock \<^verbatim>\<open>RTM\<close> and its
  \<^verbatim>\<open>httptest\<close> server): an environment with a key configured whose server answers
  every post with the topic \<^verbatim>\<open>TopicBody{Id: 1, Slug: "test-title-created"}\<close> and
  every search with no topic, and whose library functions are tables of the values Go
  computes for the few arguments used below. The sort is the insertion sort of the
  list library.
\<close>

definition testEnv :: Env where
  "testEnv =
     \<lparr>conf_Token = ''token'',
      conf_DiscPrefix = ''http://discourse'',
      conf_DiscKey = ''testkey'',
      yoda = ''yoda'',
      discourseCategory = Map.empty,
      time_ParseDuration =
        map_of [(''10m'', 600000000000), (''5m'', 300000000000), (''0s'', 0),
                (''-5m'', - 300000000000), (''200h'', 720000000000000)],
      time_DurationString =
        (\<lambda>d. case map_of [(0, ''0s''), (300000000000, ''5m0s'')] d of
               Some s \<Rightarrow> s | None \<Rightarrow> []),
      fmt_Minutes = (\<lambda>d. if d = 300000000000 then ''5'' else []),
      strconv_ParseFloat_int64 =
        map_of [(''100'', 100), (''990'', 990), (''995'', 995), (''1000'', 1000),
                (''1465010249.000606'', 1465010249), (''1465010259.000606'', 1465010259),
                (''1465010249.000806'', 1465010249)],
      sort_Sort = sort_key utime,
      utf8_RuneCount = length,
      url_QueryEscape = (\<lambda>s. s),
      http_Post = (\<lambda>url t. HttpResp 200 (Some ''{}'')),
      http_Get = (\<lambda>url. HttpResp 200 (Some ''{}'')),
      json_TopicBody = (\<lambda>b. Some \<lparr>topic_id = 1, topic_slug = ''test-title-created''\<rparr>),
      json_SearchResponse = (\<lambda>b. Some []),
      rand_Intn = (\<lambda>n. 0)\<rparr>"

text \<open>
  A fresh counter as \<^verbatim>\<open>readConfig\<close> and \<^verbatim>\<open>main\<close> set it up: no bucket, and
  \<^verbatim>\<open>meditationEnd\<close> the zero \<^verbatim>\<open>time.Time\<close> (1 January of the year 1).
\<close>

definition testCounter :: Counter where
  "testCounter =
     \<lparr>buckets = [], ChannelId = ''general'', meditationEnd = - 62135596800000000000,
      Interval = ''10m'', MaxMsg = 20, SearchOver = [], CreateTopicIn = ''Slack''\<rparr>"

definition testMsg :: "string \<Rightarrow> string \<Rightarrow> Msg" where
  "testMsg ts text = \<lparr>Channel = ''general'', User = [], Timestamp = ts, Text = text\<rparr>"

text \<open>
  Stores for the examples: one whose only message is older than the window at the time
  1000 s (with the interval of ten minutes, \<^verbatim>\<open>timeSince\<close> is 400), and one with a
  young and an old bucket, in the wrong order.
\<close>

definition staleStore :: Counter where
  "staleStore =
     testCounter\<lparr>buckets := [\<lparr>utime = 100, count' = 1, msgs = [''              : hello'']\<rparr>]\<rparr>"

definition mixedStore :: Counter where
  "mixedStore =
     testCounter\<lparr>buckets := [\<lparr>utime = 990, count' = 1, msgs = [''a'']\<rparr>,
                             \<lparr>utime = 100, count' = 2, msgs = [''b'', ''c'']\<rparr>]\<rparr>"

definition youngStore :: Counter where
  "youngStore = testCounter\<lparr>buckets := [\<lparr>utime = 990, count' = 1, msgs = [''a'']\<rparr>]\<rparr>"

text \<open>
  A counter that is paused until the time 1300 s, with a threshold of one message; and
  a text that both the archive pattern and the pause pattern match.
\<close>

definition pausedStore :: Counter where
  "pausedStore = youngStore\<lparr>meditationEnd := 1300000000000, MaxMsg := 1\<rparr>"

definition twoCommands :: string where
  "twoCommands = ''wisemonk create topic wisemonk meditate for 5m''"

text \<open>The long title of \<^verbatim>\<open>TestSanitizeTitle\<close> (107 bytes, with a newline and a tab).\<close>

definition longTitle :: string where
  "longTitle =
     ''This title has more than 100chars. It should be trimmed'' @ [CHR 0x0A, CHR 0x09]
       @ ''down. We should avoid having long titles obviously''"

text \<open>
  Three more environments: no key configured; a server that answers every post with
  the status 404 (as the first server of \<^verbatim>\<open>TestCreateTopic\<close>); and one that answers
  with 403. And a counter that is not paused, with one young message and a threshold of
  one message.
\<close>

definition noKeyEnv :: Env where
  "noKeyEnv = testEnv\<lparr>conf_DiscKey := []\<rparr>"

definition notFoundEnv :: Env where
  "notFoundEnv = testEnv\<lparr>http_Post := (\<lambda>url t. HttpResp 404 (Some ''{}''))\<rparr>"

definition forbiddenEnv :: Env where
  "forbiddenEnv = testEnv\<lparr>http_Post := (\<lambda>url t. HttpResp 403 (Some ''{}''))\<rparr>"

definition alertStore :: Counter where
  "alertStore = youngStore\<lparr>MaxMsg := 1\<rparr>"

section \<open>The bucket store: properties\<close>

subsection \<open>Compaction\<close>

lemma Count_shift_length: "length (Count_shift idx i bs) = length bs"
  by (induction idx i bs rule: Count_shift.induct) (subst Count_shift.simps, simp)

lemma Count_shift_nth:
  "idx \<le> i \<Longrightarrow> j < length bs - idx \<Longrightarrow>
   Count_shift idx i bs ! j = (if j + idx < i then bs ! j else bs ! (j + idx))"
proof (induction idx i bs rule: Count_shift.induct)
  case (1 idx i bs)
  show ?case
  proof (cases "i < length bs")
    case False
    with 1 show ?thesis by (subst Count_shift.simps) auto
  next
    case True
    let ?bs = "bs[i - idx := bs ! i]"
    have eq: "Count_shift idx i bs = Count_shift idx (Suc i) ?bs"
      using True by (subst Count_shift.simps) simp
    have ih: "Count_shift idx (Suc i) ?bs ! j =
        (if j + idx < Suc i then ?bs ! j else ?bs ! (j + idx))"
      using 1 True by simp
    consider "j + idx < i" | "j + idx = i" | "i < j + idx" by linarith
    then show ?thesis
    proof cases
      case 1
      then show ?thesis using eq ih by simp
    next
      case 2
      then show ?thesis using eq ih True by auto
    next
      case 3
      then show ?thesis using eq ih \<open>idx \<le> i\<close> by simp
    qed
  qed
qed

text \<open>The shifting loop followed by the cut is \<open>drop\<close>.\<close>

lemma Count_shift_drop:
  assumes "idx \<le> length bs"
  shows "take (length bs - idx) (Count_shift idx idx bs) = drop idx bs"
proof (rule nth_equalityI)
  show "length (take (length bs - idx) (Count_shift idx idx bs)) = length (drop idx bs)"
    by (simp add: Count_shift_length)
next
  fix j assume "j < length (take (length bs - idx) (Count_shift idx idx bs))"
  then have j: "j < length bs - idx" by (simp add: Count_shift_length)
  then show "take (length bs - idx) (Count_shift idx idx bs) ! j = drop idx bs ! j"
    using Count_shift_nth [of idx idx j bs] by (simp add: add.commute)
qed

lemma Count_idx_none: "\<forall>b \<in> set bs. utime b \<le> t \<Longrightarrow> Count_idx t bs i = 0"
  by (induction bs arbitrary: i) auto

lemma Count_idx_some:
  "\<exists>b \<in> set bs. utime b > t \<Longrightarrow>
   i \<le> Count_idx t bs i \<and> Count_idx t bs i - i < length bs
   \<and> (\<forall>b \<in> set (take (Count_idx t bs i - i) bs). utime b \<le> t)
   \<and> utime (bs ! (Count_idx t bs i - i)) > t"
proof (induction bs arbitrary: i)
  case Nil
  then show ?case by simp
next
  case (Cons b bs)
  show ?case
  proof (cases "utime b > t")
    case True
    then show ?thesis by simp
  next
    case False
    with Cons.prems have "\<exists>b \<in> set bs. utime b > t" by auto
    from Cons.IH [OF this, of "Suc i"]
    have ih: "Suc i \<le> Count_idx t bs (Suc i)"
      "Count_idx t bs (Suc i) - Suc i < length bs"
      "\<forall>b \<in> set (take (Count_idx t bs (Suc i) - Suc i) bs). utime b \<le> t"
      "utime (bs ! (Count_idx t bs (Suc i) - Suc i)) > t"
      by simp_all
    have k: "Count_idx t bs (Suc i) - i = Suc (Count_idx t bs (Suc i) - Suc i)"
      using ih(1) by simp
    show ?thesis using False ih by (simp add: k)
  qed
qed

lemma sorted_drop_filter:
  assumes "sorted (map utime bs)" "k < length bs" "\<forall>b \<in> set (take k bs). utime b \<le> t"
    "utime (bs ! k) > t"
  shows "drop k bs = filter (\<lambda>b. utime b > t) bs"
proof -
  have "\<forall>b \<in> set (drop k bs). utime b > t"
  proof
    fix b assume "b \<in> set (drop k bs)"
    then obtain j where j: "j < length (drop k bs)" "b = drop k bs ! j"
      by (auto simp: in_set_conv_nth)
    then have "utime (bs ! k) \<le> utime (bs ! (k + j))"
      using assms(1,2) by (simp add: sorted_iff_nth_mono)
    then show "utime b > t" using j assms(4) by simp
  qed
  then have a: "filter (\<lambda>b. utime b > t) (drop k bs) = drop k bs" by simp
  have b: "filter (\<lambda>b. utime b > t) (take k bs) = []"
    using assms(3) by (auto simp: filter_empty_conv)
  have "filter (\<lambda>b. utime b > t) bs = filter (\<lambda>b. utime b > t) (take k bs @ drop k bs)"
    by simp
  also have "\<dots> = drop k bs" unfolding filter_append a b by simp
  finally show ?thesis by simp
qed

text \<open>
  On a sorted store the two loops keep exactly the buckets younger than
  \<open>t\<close> when there is one; when every bucket is at or before \<open>t\<close> the index stays 0
  and the store is left as it is.
\<close>

lemma Count_compact_sorted:
  assumes "sorted (map utime bs)"
  shows "Count_compact t bs =
     (if \<exists>b \<in> set bs. utime b > t then filter (\<lambda>b. utime b > t) bs else bs)"
proof (cases "\<exists>b \<in> set bs. utime b > t")
  case False
  then have "Count_idx t bs 0 = 0" by (intro Count_idx_none) auto
  with False show ?thesis by (simp add: Count_compact_def)
next
  case True
  define k where "k = Count_idx t bs 0"
  from Count_idx_some [OF True, of 0]
  have k: "k < length bs" "\<forall>b \<in> set (take k bs). utime b \<le> t" "utime (bs ! k) > t"
    by (simp_all add: k_def)
  have d: "drop k bs = filter (\<lambda>b. utime b > t) bs"
    using sorted_drop_filter [OF assms k] .
  show ?thesis
  proof (cases "k = 0")
    case True
    with d \<open>\<exists>b \<in> set bs. utime b > t\<close> show ?thesis
      by (simp add: Count_compact_def k_def [symmetric])
  next
    case False
    then have "Count_compact t bs = drop k bs"
      using k(1) by (simp add: Count_compact_def k_def [symmetric] Count_shift_drop)
    with d True show ?thesis by simp
  qed
qed

lemma foldl_count: "foldl (\<lambda>n b. n + count' b) a bs = a + sum_list (map count' bs)"
  by (induction bs arbitrary: a) (simp_all add: add.assoc)

lemma sum_count_mset:
  assumes "mset bs = mset bs'"
  shows "sum_list (map count' bs) = sum_list (map count' bs')"
proof -
  have "sum_mset (image_mset count' (mset bs)) = sum_mset (image_mset count' (mset bs'))"
    using assms by simp
  then show ?thesis by (simp only: mset_map [symmetric] sum_mset_sum_list)
qed

lemma sorts_by_timestamp_sort_key: "sorts_by_timestamp (sort_key utime)"
  by (simp add: sorts_by_timestamp_def)

lemma sorts_by_timestamp_testEnv: "sorts_by_timestamp (sort_Sort testEnv)"
  by (simp add: testEnv_def sorts_by_timestamp_sort_key)

text \<open>The shape of every result of \<open>Count\<close>.\<close>

lemma Count_Inr:
  assumes "Count w now c = Inr (n, c')"
  obtains interval where
    "time_ParseDuration w (Interval c) = Some interval"
    "c' = c\<lparr>buckets := Count_compact (time_Unix (time_Add now (- interval)))
                          (sort_Sort w (buckets c))\<rparr>"
    "n = sum_list (map count' (buckets c'))"
  using assms by (auto simp: Count_def Let_def foldl_count split: option.splits)

lemma Count_total:
  "(\<exists>r. Count w now c = Inr r) \<longleftrightarrow> time_ParseDuration w (Interval c) \<noteq> None"
  by (auto simp: Count_def Let_def split: option.splits)

text \<open>
  With a bucket inside the window, \<open>Count\<close> returns the messages of the buckets younger
  than \<^verbatim>\<open>timeSince\<close> and keeps exactly those buckets.
\<close>

lemma Count_some_young:
  assumes "sorts_by_timestamp (sort_Sort w)"
    and "time_ParseDuration w (Interval c) = Some interval"
    and "\<exists>b \<in> set (buckets c). utime b > time_Unix (time_Add now (- interval))"
  shows "Count w now c =
     Inr (sum_list (map count'
            (filter (\<lambda>b. utime b > time_Unix (time_Add now (- interval)))
               (sort_Sort w (buckets c)))),
          c\<lparr>buckets := filter (\<lambda>b. utime b > time_Unix (time_Add now (- interval)))
                          (sort_Sort w (buckets c))\<rparr>)"
proof -
  have s: "sorted (map utime (sort_Sort w (buckets c)))"
    and m: "mset (sort_Sort w (buckets c)) = mset (buckets c)"
    using assms(1) by (simp_all add: sorts_by_timestamp_def)
  have "set (sort_Sort w (buckets c)) = set (buckets c)"
    using m by (rule mset_eq_setD)
  with assms(3) Count_compact_sorted [OF s, of "time_Unix (time_Add now (- interval))"]
  show ?thesis using assms(2) by (simp add: Count_def Let_def foldl_count)
qed

text \<open>
  With every bucket at or before \<^verbatim>\<open>timeSince\<close> the index stays 0: nothing is
  discarded and the whole store is counted.
\<close>

lemma Count_all_stale:
  assumes "sorts_by_timestamp (sort_Sort w)"
    and "time_ParseDuration w (Interval c) = Some interval"
    and "\<forall>b \<in> set (buckets c). utime b \<le> time_Unix (time_Add now (- interval))"
  shows "Count w now c =
     Inr (sum_list (map count' (buckets c)), c\<lparr>buckets := sort_Sort w (buckets c)\<rparr>)"
proof -
  have s: "sorted (map utime (sort_Sort w (buckets c)))"
    and m: "mset (sort_Sort w (buckets c)) = mset (buckets c)"
    using assms(1) by (simp_all add: sorts_by_timestamp_def)
  have "set (sort_Sort w (buckets c)) = set (buckets c)"
    using m by (rule mset_eq_setD)
  with assms(3) Count_compact_sorted [OF s, of "time_Unix (time_Add now (- interval))"]
  have "Count_compact (time_Unix (time_Add now (- interval))) (sort_Sort w (buckets c))
      = sort_Sort w (buckets c)"
    by (simp add: not_less [symmetric])
  then show ?thesis
    using assms(2) sum_count_mset [OF m] by (simp add: Count_def Let_def foldl_count)
qed

text \<open>
  Claim C1. After any sequence of \<open>Increment\<close> calls on a fresh store, \<open>Count\<close> is
  to return the number of recorded messages whose timestamp is strictly after
  \<open>now - window\<close>, and to leave exactly the buckets with such a timestamp.

  The code does not do so when no bucket is inside the window. One message is
  recorded with the timestamp 100; at the time 1000 s, with the window of ten minutes,
  \<^verbatim>\<open>timeSince\<close> is 400 and no recorded timestamp is after it. The first loop of
  \<open>Count\<close> finds no bucket and leaves \<^verbatim>\<open>idx\<close> at 0, the value it also has when the
  first bucket is inside the window; so nothing is discarded, and \<open>Count\<close> returns 1
  with the old bucket still in the store.
\<close>

theorem Count_keeps_stale_store:
  "Increment testEnv Map.empty testCounter (testMsg ''100'' ''hello'') = Inr staleStore
   \<and> time_ParseDuration testEnv (Interval staleStore) = Some 600000000000
   \<and> time_Unix (time_Add 1000000000000 (- 600000000000)) = 400
   \<and> map utime (buckets staleStore) = [100]
   \<and> Count testEnv 1000000000000 staleStore = Inr (1, staleStore)"
proof -
  have "Increment testEnv Map.empty testCounter (testMsg ''100'' ''hello'') = Inr staleStore"
    by code_simp
  moreover have "time_ParseDuration testEnv (Interval staleStore) = Some 600000000000"
    by code_simp
  moreover have "time_Unix (time_Add 1000000000000 (- 600000000000)) = 400"
    by (simp add: time_Unix_def time_Add_def)
  moreover have "map utime (buckets staleStore) = [100]"
    by (simp add: staleStore_def testCounter_def)
  moreover have "Count testEnv 1000000000000 staleStore = Inr (1, staleStore)"
    by code_simp
  ultimately show ?thesis by simp
qed

text \<open>
  Claim C8. \<open>Count\<close> is idempotent under an unchanged clock: when a call returns
  \<open>n\<close>, a second call at the same \<open>now\<close> on the store the first one left returns
  \<open>n\<close> again, and the store it leaves holds the same buckets (the sort may only
  reorder buckets of equal timestamp): nothing is discarded or counted twice. This
  holds for every store and every sort that meets the contract of \<^verbatim>\<open>sort.Sort\<close>.
  (\<open>Count\<close> returns whenever the interval of the counter parses, see \<open>Count_total\<close>.)
\<close>

theorem Count_idempotent:
  assumes srt: "sorts_by_timestamp (sort_Sort w)"
    and first: "Count w now c = Inr (n, c')"
  shows "Count w now c' = Inr (n, c'\<lparr>buckets := sort_Sort w (buckets c')\<rparr>)
     \<and> mset (sort_Sort w (buckets c')) = mset (buckets c')"
proof -
  from first obtain interval where
    iv: "time_ParseDuration w (Interval c) = Some interval"
    and c': "c' = c\<lparr>buckets := Count_compact (time_Unix (time_Add now (- interval)))
                          (sort_Sort w (buckets c))\<rparr>"
    and n: "n = sum_list (map count' (buckets c'))"
    by (rule Count_Inr)
  define t where "t = time_Unix (time_Add now (- interval))"
  define bs where "bs = sort_Sort w (buckets c)"
  define bs2 where "bs2 = sort_Sort w (buckets c')"
  have sorted: "sorted (map utime bs)" "sorted (map utime bs2)"
    and perm: "mset bs2 = mset (buckets c')"
    using srt by (simp_all add: sorts_by_timestamp_def bs_def bs2_def)
  have b': "buckets c' = (if \<exists>b \<in> set bs. utime b > t then filter (\<lambda>b. utime b > t) bs else bs)"
    using c' Count_compact_sorted [OF sorted(1), of t] by (simp add: t_def bs_def)
  have set2: "set bs2 = set (buckets c')"
    using perm by (rule mset_eq_setD)
  have "Count_compact t bs2 = bs2"
  proof (cases "\<exists>b \<in> set bs2. utime b > t")
    case False
    then show ?thesis using Count_compact_sorted [OF sorted(2), of t] by simp
  next
    case True
    then have "\<exists>b \<in> set bs. utime b > t"
      using set2 b' by (auto split: if_splits)
    then have "\<forall>b \<in> set bs2. utime b > t"
      using set2 b' by simp
    then have "filter (\<lambda>b. utime b > t) bs2 = bs2" by simp
    with True show ?thesis using Count_compact_sorted [OF sorted(2), of t] by simp
  qed
  moreover have "sum_list (map count' bs2) = n"
    using sum_count_mset [OF perm] n by simp
  moreover have "time_ParseDuration w (Interval c') = Some interval"
    using iv c' by simp
  ultimately have "Count w now c' = Inr (n, c'\<lparr>buckets := bs2\<rparr>)"
    by (simp add: Count_def Let_def foldl_count t_def bs2_def)
  then show ?thesis using perm by (simp add: bs2_def)
qed

theorem Count_idempotent_witness:
  "sorts_by_timestamp (sort_Sort testEnv)
   \<and> Count testEnv 1000000000000 mixedStore = Inr (1, youngStore)
   \<and> Count testEnv 1000000000000 youngStore = Inr (1, youngStore)"
proof -
  have first: "Count testEnv 1000000000000 mixedStore = Inr (1, youngStore)"
    by code_simp
  have same: "youngStore\<lparr>buckets := sort_Sort testEnv (buckets youngStore)\<rparr> = youngStore"
    by code_simp
  from Count_idempotent [OF sorts_by_timestamp_testEnv first]
  have "Count testEnv 1000000000000 youngStore = Inr (1, youngStore)"
    by (simp only: same)
  with first sorts_by_timestamp_testEnv show ?thesis by simp
qed

subsection \<open>Increment\<close>

lemma Increment_find_Some:
  "Increment_find ts n bs = Some i \<Longrightarrow> i < n \<and> utime (bs ! i) = ts"
  by (induction n) (auto split: if_splits simp: less_Suc_eq)

lemma Increment_find_None:
  "Increment_find ts n bs = None \<Longrightarrow> i < n \<Longrightarrow> utime (bs ! i) \<noteq> ts"
  by (induction n) (auto split: if_splits simp: less_Suc_eq)

lemma Increment_find_fresh:
  assumes "ts \<notin> utime ` set bs"
  shows "Increment_find ts (length bs) bs = None"
proof (cases "Increment_find ts (length bs) bs")
  case None
  then show ?thesis .
next
  case (Some i)
  then have "i < length bs" "utime (bs ! i) = ts"
    using Increment_find_Some by blast+
  then have "ts \<in> utime ` set bs" by (metis imageI nth_mem)
  with assms show ?thesis by simp
qed

lemma Increment_find_present:
  assumes "ts \<in> utime ` set bs"
  shows "\<exists>i. Increment_find ts (length bs) bs = Some i"
proof (cases "Increment_find ts (length bs) bs")
  case (Some i)
  then show ?thesis by simp
next
  case None
  from assms obtain j where "j < length bs" "utime (bs ! j) = ts"
    by (auto simp: in_set_conv_nth)
  with Increment_find_None [OF None] show ?thesis by blast
qed

lemma utime_Increment_bucket: "utime (Increment_bucket b msg) = utime b"
  by (simp add: Increment_bucket_def)

lemma map_utime_update:
  assumes "i < length bs"
  shows "map utime (bs[i := Increment_bucket (bs ! i) msg]) = map utime bs"
  using assms by (simp add: map_update utime_Increment_bucket list_update_same_conv)

text \<open>\<open>Increment\<close> returns unless the channel or the timestamp is wrong.\<close>

lemma Increment_total:
  "(\<exists>c'. Increment w memmap c m = Inr c') \<longleftrightarrow>
   Channel m = ChannelId c \<and> strconv_ParseFloat_int64 w (Timestamp m) \<noteq> None"
  by (auto simp: Increment_def Let_def split: option.splits)

lemma Increment_step:
  assumes inv: "distinct (map utime (buckets c))"
    and ch: "Channel m = ChannelId c"
    and ts: "strconv_ParseFloat_int64 w (Timestamp m) = Some ts"
  shows "\<exists>c'. Increment w memmap c m = Inr c'
      \<and> distinct (map utime (buckets c'))
      \<and> (if ts \<in> utime ` set (buckets c)
         then \<exists>i < length (buckets c). utime (buckets c ! i) = ts
           \<and> buckets c' = (buckets c)[i :=
               \<lparr>utime = ts, count' = count' (buckets c ! i) + 1,
                msgs = msgs (buckets c ! i)
                  @ [formatMsg w memmap (User m) (substituteUsernames (Text m) memmap)]\<rparr>]
         else buckets c' = buckets c
               @ [\<lparr>utime = ts, count' = 1,
                   msgs = [formatMsg w memmap (User m) (substituteUsernames (Text m) memmap)]\<rparr>])"
proof (cases "ts \<in> utime ` set (buckets c)")
  case False
  then have "Increment_find ts (length (buckets c)) (buckets c) = None"
    by (rule Increment_find_fresh)
  then show ?thesis using False inv ch ts
    by (simp add: Increment_def Let_def)
next
  case True
  define msg where "msg = formatMsg w memmap (User m) (substituteUsernames (Text m) memmap)"
  define bs where "bs = buckets c"
  from True obtain i where i: "Increment_find ts (length bs) bs = Some i"
    unfolding bs_def using Increment_find_present by blast
  then have il: "i < length bs" and iu: "utime (bs ! i) = ts"
    using Increment_find_Some by blast+
  have run: "Increment w memmap c m = Inr (c\<lparr>buckets := bs[i := Increment_bucket (bs ! i) msg]\<rparr>)"
    using ch ts i by (simp add: Increment_def Let_def msg_def bs_def)
  have b: "Increment_bucket (bs ! i) msg
        = \<lparr>utime = ts, count' = count' (bs ! i) + 1, msgs = msgs (bs ! i) @ [msg]\<rparr>"
    using iu by (simp add: Increment_bucket_def)
  have d: "distinct (map utime (bs[i := Increment_bucket (bs ! i) msg]))"
    using inv map_utime_update [OF il, of msg] by (simp only: bs_def)
  have "\<exists>j < length bs. utime (bs ! j) = ts
      \<and> bs[i := Increment_bucket (bs ! i) msg]
        = bs[j := \<lparr>utime = ts, count' = count' (bs ! j) + 1, msgs = msgs (bs ! j) @ [msg]\<rparr>]"
    using il iu b by auto
  then show ?thesis
    using True run d unfolding msg_def bs_def by simp
qed

lemma Increment_twice:
  assumes fresh: "ts \<notin> utime ` set (buckets c)"
    and ch: "Channel m1 = ChannelId c" "Channel m2 = ChannelId c"
    and ts: "strconv_ParseFloat_int64 w (Timestamp m1) = Some ts"
      "strconv_ParseFloat_int64 w (Timestamp m2) = Some ts"
  shows "\<exists>c1 c2. Increment w memmap c m1 = Inr c1 \<and> Increment w memmap c1 m2 = Inr c2
      \<and> buckets c2 = buckets c
          @ [\<lparr>utime = ts, count' = 2,
              msgs = [formatMsg w memmap (User m1) (substituteUsernames (Text m1) memmap),
                      formatMsg w memmap (User m2) (substituteUsernames (Text m2) memmap)]\<rparr>]"
proof -
  define msg1 where "msg1 = formatMsg w memmap (User m1) (substituteUsernames (Text m1) memmap)"
  define msg2 where "msg2 = formatMsg w memmap (User m2) (substituteUsernames (Text m2) memmap)"
  define bs where "bs = buckets c"
  define c1 where "c1 = c\<lparr>buckets := bs @ [\<lparr>utime = ts, count' = 1, msgs = [msg1]\<rparr>]\<rparr>"
  have "Increment_find ts (length bs) bs = None"
    using fresh unfolding bs_def by (rule Increment_find_fresh)
  then have r1: "Increment w memmap c m1 = Inr c1"
    using ch(1) ts(1) by (simp add: Increment_def Let_def msg1_def bs_def c1_def)
  have "Increment_find ts (length (buckets c1)) (buckets c1) = Some (length bs)"
    by (simp add: c1_def)
  then have r2: "Increment w memmap c1 m2
      = Inr (c1\<lparr>buckets := (buckets c1)[length bs :=
               Increment_bucket (buckets c1 ! length bs) msg2]\<rparr>)"
    using ch(2) ts(2) by (simp add: Increment_def Let_def msg2_def c1_def)
  have "(buckets c1)[length bs := Increment_bucket (buckets c1 ! length bs) msg2]
      = bs @ [\<lparr>utime = ts, count' = 2, msgs = [msg1, msg2]\<rparr>]"
    by (simp add: c1_def Increment_bucket_def)
  with r1 r2 show ?thesis
    unfolding msg1_def msg2_def bs_def by simp
qed

text \<open>
  Claim C2. \<open>Increment\<close> keeps the invariant of one bucket for each timestamp. On a
  store that satisfies it, a message of the counter's own channel whose timestamp
  parses to \<open>ts\<close> is recorded (no fatal exit) and the invariant holds afterwards. When
  a bucket has the timestamp \<open>ts\<close>, that bucket has its count incremented and the
  formatted message appended, and no other bucket changes; when none has, a bucket with
  the count 1 and the message is appended to the store. In particular, two such
  messages at a timestamp that no bucket has yet give one new bucket with the count 2
  and both messages in the order of arrival.
\<close>

theorem Increment_one_bucket_per_timestamp:
  assumes inv: "distinct (map utime (buckets c))"
    and ch: "Channel m = ChannelId c"
    and ts: "strconv_ParseFloat_int64 w (Timestamp m) = Some ts"
  shows "(\<exists>c'. Increment w memmap c m = Inr c'
      \<and> distinct (map utime (buckets c'))
      \<and> (if ts \<in> utime ` set (buckets c)
         then \<exists>i < length (buckets c). utime (buckets c ! i) = ts
           \<and> buckets c' = (buckets c)[i :=
               \<lparr>utime = ts, count' = count' (buckets c ! i) + 1,
                msgs = msgs (buckets c ! i)
                  @ [formatMsg w memmap (User m) (substituteUsernames (Text m) memmap)]\<rparr>]
         else buckets c' = buckets c
               @ [\<lparr>utime = ts, count' = 1,
                   msgs = [formatMsg w memmap (User m) (substituteUsernames (Text m) memmap)]\<rparr>]))
    \<and> (\<forall>m2. ts \<notin> utime ` set (buckets c) \<and> Channel m2 = ChannelId c
          \<and> strconv_ParseFloat_int64 w (Timestamp m2) = Some ts \<longrightarrow>
        (\<exists>c1 c2. Increment w memmap c m = Inr c1 \<and> Increment w memmap c1 m2 = Inr c2
          \<and> buckets c2 = buckets c
              @ [\<lparr>utime = ts, count' = 2,
                  msgs = [formatMsg w memmap (User m) (substituteUsernames (Text m) memmap),
                          formatMsg w memmap (User m2)
                            (substituteUsernames (Text m2) memmap)]\<rparr>]))"
proof (intro conjI allI impI)
  show "\<exists>c'. Increment w memmap c m = Inr c'
      \<and> distinct (map utime (buckets c'))
      \<and> (if ts \<in> utime ` set (buckets c)
         then \<exists>i < length (buckets c). utime (buckets c ! i) = ts
           \<and> buckets c' = (buckets c)[i :=
               \<lparr>utime = ts, count' = count' (buckets c ! i) + 1,
                msgs = msgs (buckets c ! i)
                  @ [formatMsg w memmap (User m) (substituteUsernames (Text m) memmap)]\<rparr>]
         else buckets c' = buckets c
               @ [\<lparr>utime = ts, count' = 1,
                   msgs = [formatMsg w memmap (User m) (substituteUsernames (Text m) memmap)]\<rparr>])"
    using inv ch ts by (rule Increment_step)
next
  fix m2 :: Msg
  assume a: "ts \<notin> utime ` set (buckets c) \<and> Channel m2 = ChannelId c
          \<and> strconv_ParseFloat_int64 w (Timestamp m2) = Some ts"
  then show "\<exists>c1 c2. Increment w memmap c m = Inr c1 \<and> Increment w memmap c1 m2 = Inr c2
          \<and> buckets c2 = buckets c
              @ [\<lparr>utime = ts, count' = 2,
                  msgs = [formatMsg w memmap (User m) (substituteUsernames (Text m) memmap),
                          formatMsg w memmap (User m2)
                            (substituteUsernames (Text m2) memmap)]\<rparr>]"
    using Increment_twice [of ts c m m2 w memmap] ch ts by blast
qed

text \<open>
  The first and the third message of \<^verbatim>\<open>TestIncrement\<close>, which share the second
  1465010249, on a fresh counter.
\<close>

theorem Increment_one_bucket_per_timestamp_witness:
  "\<exists>c1 c2.
     Increment testEnv Map.empty testCounter
       (testMsg ''1465010249.000606'' '' First message'') = Inr c1
     \<and> Increment testEnv Map.empty c1
       (testMsg ''1465010249.000806'' '' Third message at same timestamp as first'') = Inr c2
     \<and> buckets c2 =
         [\<lparr>utime = 1465010249, count' = 2,
           msgs = [''              :  First message'',
                   ''              :  Third message at same timestamp as first'']\<rparr>]"
proof -
  let ?m1 = "testMsg ''1465010249.000606'' '' First message''"
  let ?m2 = "testMsg ''1465010249.000806'' '' Third message at same timestamp as first''"
  have inv: "distinct (map utime (buckets testCounter))"
    by (simp add: testCounter_def)
  have ch: "Channel ?m1 = ChannelId testCounter" "Channel ?m2 = ChannelId testCounter"
    by (simp_all add: testMsg_def testCounter_def)
  have ts: "strconv_ParseFloat_int64 testEnv (Timestamp ?m1) = Some 1465010249"
    "strconv_ParseFloat_int64 testEnv (Timestamp ?m2) = Some 1465010249"
    by code_simp+
  have fresh: "1465010249 \<notin> utime ` set (buckets testCounter)"
    by (simp add: testCounter_def)
  have f1: "formatMsg testEnv Map.empty (User ?m1) (substituteUsernames (Text ?m1) Map.empty)
      = ''              :  First message''"
    by code_simp
  have f2: "formatMsg testEnv Map.empty (User ?m2) (substituteUsernames (Text ?m2) Map.empty)
      = ''              :  Third message at same timestamp as first''"
    by code_simp
  have b: "buckets testCounter = []"
    by (simp add: testCounter_def)
  from Increment_one_bucket_per_timestamp [OF inv ch(1) ts(1), of Map.empty]
  have "\<forall>m2. 1465010249 \<notin> utime ` set (buckets testCounter)
          \<and> Channel m2 = ChannelId testCounter
          \<and> strconv_ParseFloat_int64 testEnv (Timestamp m2) = Some 1465010249 \<longrightarrow>
        (\<exists>c1 c2. Increment testEnv Map.empty testCounter ?m1 = Inr c1
          \<and> Increment testEnv Map.empty c1 m2 = Inr c2
          \<and> buckets c2 = buckets testCounter
              @ [\<lparr>utime = 1465010249, count' = 2,
                  msgs = [formatMsg testEnv Map.empty (User ?m1)
                            (substituteUsernames (Text ?m1) Map.empty),
                          formatMsg testEnv Map.empty (User m2)
                            (substituteUsernames (Text m2) Map.empty)]\<rparr>])"
    by (rule conjunct2)
  then have "\<exists>c1 c2. Increment testEnv Map.empty testCounter ?m1 = Inr c1
          \<and> Increment testEnv Map.empty c1 ?m2 = Inr c2
          \<and> buckets c2 = buckets testCounter
              @ [\<lparr>utime = 1465010249, count' = 2,
                  msgs = [formatMsg testEnv Map.empty (User ?m1)
                            (substituteUsernames (Text ?m1) Map.empty),
                          formatMsg testEnv Map.empty (User ?m2)
                            (substituteUsernames (Text ?m2) Map.empty)]\<rparr>]"
    using fresh ch(2) ts(2) by blast
  then show ?thesis by (simp only: f1 f2 b append_Nil)
qed

subsection \<open>Sequences of records, then a count\<close>

text \<open>
  What one \<open>Increment\<close> does to the total count of the buckets whose timestamp
  satisfies \<open>P\<close>, and to the set of timestamps in the store.
\<close>

lemma Increment_sum:
  assumes run: "Increment w memmap c m = Inr c'"
    and ts: "strconv_ParseFloat_int64 w (Timestamp m) = Some ts"
  shows "sum_list (map count' (filter (\<lambda>b. P (utime b)) (buckets c')))
      = sum_list (map count' (filter (\<lambda>b. P (utime b)) (buckets c)))
        + (if P ts then 1 else 0)"
proof (cases "Increment_find ts (length (buckets c)) (buckets c)")
  case None
  with run ts show ?thesis
    by (auto simp: Increment_def Let_def split: if_splits)
next
  case (Some i)
  define bs where "bs = buckets c"
  define msg where "msg = formatMsg w memmap (User m) (substituteUsernames (Text m) memmap)"
  from Some have i: "i < length bs" "utime (bs ! i) = ts"
    unfolding bs_def using Increment_find_Some by blast+
  have c': "buckets c' = bs[i := Increment_bucket (bs ! i) msg]"
    using run ts Some by (auto simp: Increment_def Let_def msg_def bs_def split: if_splits)
  have old: "bs = take i bs @ bs ! i # drop (Suc i) bs"
    using i(1) by (rule id_take_nth_drop)
  have new: "bs[i := Increment_bucket (bs ! i) msg]
      = take i bs @ Increment_bucket (bs ! i) msg # drop (Suc i) bs"
    using i(1) by (rule upd_conv_take_nth_drop)
  have "sum_list (map count' (filter (\<lambda>b. P (utime b))
          (take i bs @ Increment_bucket (bs ! i) msg # drop (Suc i) bs)))
      = sum_list (map count' (filter (\<lambda>b. P (utime b))
          (take i bs @ bs ! i # drop (Suc i) bs))) + (if P ts then 1 else 0)"
    using i(2) by (simp add: Increment_bucket_def)
  then show ?thesis
    unfolding c' new bs_def [symmetric] using old by simp
qed

lemma Increment_utimes:
  assumes run: "Increment w memmap c m = Inr c'"
    and ts: "strconv_ParseFloat_int64 w (Timestamp m) = Some ts"
  shows "utime ` set (buckets c') = insert ts (utime ` set (buckets c))"
proof (cases "Increment_find ts (length (buckets c)) (buckets c)")
  case None
  with run ts show ?thesis
    by (auto simp: Increment_def Let_def split: if_splits)
next
  case (Some i)
  define msg where "msg = formatMsg w memmap (User m) (substituteUsernames (Text m) memmap)"
  from Some have i: "i < length (buckets c)" "utime (buckets c ! i) = ts"
    using Increment_find_Some by blast+
  have "buckets c' = (buckets c)[i := Increment_bucket (buckets c ! i) msg]"
    using run ts Some by (auto simp: Increment_def Let_def msg_def split: if_splits)
  then have "map utime (buckets c') = map utime (buckets c)"
    using map_utime_update [OF i(1)] by simp
  then have "set (map utime (buckets c')) = set (map utime (buckets c))"
    by simp
  moreover have "ts \<in> utime ` set (buckets c)"
    using i by (metis imageI nth_mem)
  ultimately show ?thesis by auto
qed

lemma Increment_ChannelId:
  assumes "Increment w memmap c m = Inr c'"
  shows "ChannelId c' = ChannelId c \<and> Interval c' = Interval c"
  using assms by (auto simp: Increment_def Let_def split: if_splits option.splits)

lemma Increment_all_sum:
  assumes "recordable w c ms"
  shows "\<exists>c'. Increment_all w memmap c ms = Inr c'
      \<and> Interval c' = Interval c
      \<and> sum_list (map count' (filter (\<lambda>b. P (utime b)) (buckets c')))
        = sum_list (map count' (filter (\<lambda>b. P (utime b)) (buckets c)))
          + of_nat (length (filter
              (\<lambda>m. P (the (strconv_ParseFloat_int64 w (Timestamp m)))) ms))
      \<and> utime ` set (buckets c')
        = utime ` set (buckets c)
          \<union> (\<lambda>m. the (strconv_ParseFloat_int64 w (Timestamp m))) ` set ms"
  using assms
proof (induction ms arbitrary: c)
  case Nil
  then show ?case by simp
next
  case (Cons m ms)
  from Cons.prems obtain ts where
    ch: "Channel m = ChannelId c" and ts: "strconv_ParseFloat_int64 w (Timestamp m) = Some ts"
    by (auto simp: recordable_def)
  then obtain c1 where c1: "Increment w memmap c m = Inr c1"
    using Increment_total [of w memmap c m] by auto
  have same: "ChannelId c1 = ChannelId c" "Interval c1 = Interval c"
    using Increment_ChannelId [OF c1] by simp_all
  then have "recordable w c1 ms"
    using Cons.prems by (simp add: recordable_def)
  from Cons.IH [OF this] obtain c' where
    c': "Increment_all w memmap c1 ms = Inr c'" "Interval c' = Interval c1"
      "sum_list (map count' (filter (\<lambda>b. P (utime b)) (buckets c')))
        = sum_list (map count' (filter (\<lambda>b. P (utime b)) (buckets c1)))
          + of_nat (length (filter
              (\<lambda>m. P (the (strconv_ParseFloat_int64 w (Timestamp m)))) ms))"
      "utime ` set (buckets c')
        = utime ` set (buckets c1)
          \<union> (\<lambda>m. the (strconv_ParseFloat_int64 w (Timestamp m))) ` set ms"
    by blast
  have "Increment_all w memmap c (m # ms) = Inr c'"
    using c1 c'(1) by simp
  moreover have "Interval c' = Interval c"
    using c'(2) same(2) by simp
  moreover have "sum_list (map count' (filter (\<lambda>b. P (utime b)) (buckets c')))
        = sum_list (map count' (filter (\<lambda>b. P (utime b)) (buckets c)))
          + of_nat (length (filter
              (\<lambda>m. P (the (strconv_ParseFloat_int64 w (Timestamp m)))) (m # ms)))"
    using c'(3) Increment_sum [OF c1 ts, of P] ts by (simp add: add.assoc)
  moreover have "utime ` set (buckets c')
        = utime ` set (buckets c)
          \<union> (\<lambda>m. the (strconv_ParseFloat_int64 w (Timestamp m))) ` set (m # ms)"
    using c'(4) Increment_utimes [OF c1 ts] ts by auto
  ultimately show ?case by blast
qed

lemma sum_count_filter_mset:
  assumes "mset bs = mset bs'"
  shows "sum_list (map count' (filter P bs)) = sum_list (map count' (filter P bs'))"
proof -
  have "mset (filter P bs) = mset (filter P bs')"
    using assms by (simp only: mset_filter)
  then show ?thesis by (rule sum_count_mset)
qed

text \<open>
  When some recorded message is inside the window, the count is the one the comment of
  \<^verbatim>\<open>Count\<close> promises: after any recordable messages on a store without buckets, \<open>Count\<close> returns the
  number of messages recorded with a timestamp after \<^verbatim>\<open>timeSince\<close> (as a Go
  \<^verbatim>\<open>int\<close>), and the store it leaves holds the buckets with such a timestamp and no
  other.
\<close>

lemma Count_after_Increments:
  assumes srt: "sorts_by_timestamp (sort_Sort w)"
    and fresh: "buckets c = []"
    and ms: "recordable w c ms"
    and iv: "time_ParseDuration w (Interval c) = Some interval"
    and t: "t = time_Unix (time_Add now (- interval))"
    and young: "\<exists>m \<in> set ms. t < the (strconv_ParseFloat_int64 w (Timestamp m))"
  shows "\<exists>c1 c2. Increment_all w memmap c ms = Inr c1
      \<and> Count w now c1 =
          Inr (of_nat (length (filter
                 (\<lambda>m. t < the (strconv_ParseFloat_int64 w (Timestamp m))) ms)), c2)
      \<and> set (buckets c2) = {b \<in> set (buckets c1). t < utime b}"
proof -
  from Increment_all_sum [OF ms, of memmap "\<lambda>u. t < u"] fresh obtain c1 where
    c1: "Increment_all w memmap c ms = Inr c1" "Interval c1 = Interval c"
      "sum_list (map count' (filter (\<lambda>b. t < utime b) (buckets c1)))
        = of_nat (length (filter
            (\<lambda>m. t < the (strconv_ParseFloat_int64 w (Timestamp m))) ms))"
      "utime ` set (buckets c1)
        = (\<lambda>m. the (strconv_ParseFloat_int64 w (Timestamp m))) ` set ms"
    by auto
  have ex: "\<exists>b \<in> set (buckets c1). utime b > time_Unix (time_Add now (- interval))"
  proof -
    from young obtain m where "m \<in> set ms" "t < the (strconv_ParseFloat_int64 w (Timestamp m))"
      by blast
    then have "the (strconv_ParseFloat_int64 w (Timestamp m)) \<in> utime ` set (buckets c1)"
      using c1(4) by blast
    then show ?thesis
      using \<open>t < the (strconv_ParseFloat_int64 w (Timestamp m))\<close> t by auto
  qed
  have iv1: "time_ParseDuration w (Interval c1) = Some interval"
    using iv c1(2) by simp
  have perm: "mset (sort_Sort w (buckets c1)) = mset (buckets c1)"
    using srt by (simp add: sorts_by_timestamp_def)
  have "sum_list (map count' (filter (\<lambda>b. t < utime b) (sort_Sort w (buckets c1))))
      = sum_list (map count' (filter (\<lambda>b. t < utime b) (buckets c1)))"
    using perm by (rule sum_count_filter_mset)
  moreover have "set (filter (\<lambda>b. t < utime b) (sort_Sort w (buckets c1)))
      = {b \<in> set (buckets c1). t < utime b}"
    using mset_eq_setD [OF perm] by auto
  ultimately show ?thesis
    using Count_some_young [OF srt iv1 ex] c1(1,3) t by auto
qed

text \<open>
  When messages have been recorded and none is inside the window, \<open>Count\<close> returns
  the number of all of them and discards nothing.
\<close>

lemma Count_after_stale_Increments:
  assumes srt: "sorts_by_timestamp (sort_Sort w)"
    and fresh: "buckets c = []"
    and ms: "recordable w c ms"
    and iv: "time_ParseDuration w (Interval c) = Some interval"
    and t: "t = time_Unix (time_Add now (- interval))"
    and stale: "\<forall>m \<in> set ms. the (strconv_ParseFloat_int64 w (Timestamp m)) \<le> t"
  shows "\<exists>c1 c2. Increment_all w memmap c ms = Inr c1
      \<and> Count w now c1 = Inr (of_nat (length ms), c2)
      \<and> set (buckets c2) = set (buckets c1)"
proof -
  from Increment_all_sum [OF ms, of memmap "\<lambda>u. True"] fresh obtain c1 where
    c1: "Increment_all w memmap c ms = Inr c1" "Interval c1 = Interval c"
      "sum_list (map count' (buckets c1)) = of_nat (length ms)"
      "utime ` set (buckets c1)
        = (\<lambda>m. the (strconv_ParseFloat_int64 w (Timestamp m))) ` set ms"
    by auto
  have all: "\<forall>b \<in> set (buckets c1). utime b \<le> time_Unix (time_Add now (- interval))"
  proof
    fix b assume "b \<in> set (buckets c1)"
    then have "utime b \<in> (\<lambda>m. the (strconv_ParseFloat_int64 w (Timestamp m))) ` set ms"
      using c1(4) by blast
    then show "utime b \<le> time_Unix (time_Add now (- interval))"
      using stale t by auto
  qed
  have iv1: "time_ParseDuration w (Interval c1) = Some interval"
    using iv c1(2) by simp
  have perm: "mset (sort_Sort w (buckets c1)) = mset (buckets c1)"
    using srt by (simp add: sorts_by_timestamp_def)
  show ?thesis
    using Count_all_stale [OF srt iv1 all] c1(1,3) mset_eq_setD [OF perm] by auto
qed

section \<open>The pause: properties\<close>

lemma sint_word_of_int_64:
  assumes "- (2 ^ 63) \<le> x" "x < 2 ^ 63"
  shows "sint (word_of_int x :: 64 word) = x"
  using assms by (simp add: sint_sbintrunc' signed_take_bit_int_eq_self)

lemma sint_time_Sub_pos: "0 < sint (time_Sub t u) \<longleftrightarrow> u < t"
proof -
  consider "t - u > 2 ^ 63 - 1" | "t - u < - (2 ^ 63)" | "- (2 ^ 63) \<le> t - u" "t - u < 2 ^ 63"
    by linarith
  then show ?thesis
  proof cases
    case 1
    have "sint (word_of_int (2 ^ 63 - 1) :: 64 word) = 2 ^ 63 - 1"
      by (rule sint_word_of_int_64) simp_all
    with 1 show ?thesis by (simp add: time_Sub_def)
  next
    case 2
    have "sint (word_of_int (- (2 ^ 63)) :: 64 word) = - (2 ^ 63)"
      by (rule sint_word_of_int_64) simp_all
    with 2 show ?thesis by (simp add: time_Sub_def)
  next
    case 3
    then have "sint (word_of_int (t - u) :: 64 word) = t - u"
      by (intro sint_word_of_int_64) simp_all
    with 3 have "sint (time_Sub t u) = t - u"
      by (simp add: time_Sub_def del: of_int_diff)
    then show ?thesis by simp
  qed
qed

lemma sint_time_Sub_neg: "sint (time_Sub t u) < 0 \<longleftrightarrow> t < u"
proof -
  consider "t - u > 2 ^ 63 - 1" | "t - u < - (2 ^ 63)" | "- (2 ^ 63) \<le> t - u" "t - u < 2 ^ 63"
    by linarith
  then show ?thesis
  proof cases
    case 1
    have "sint (word_of_int (2 ^ 63 - 1) :: 64 word) = 2 ^ 63 - 1"
      by (rule sint_word_of_int_64) simp_all
    with 1 show ?thesis by (simp add: time_Sub_def)
  next
    case 2
    have "sint (word_of_int (- (2 ^ 63)) :: 64 word) = - (2 ^ 63)"
      by (rule sint_word_of_int_64) simp_all
    with 2 show ?thesis by (simp add: time_Sub_def)
  next
    case 3
    then have "sint (word_of_int (t - u) :: 64 word) = t - u"
      by (intro sint_word_of_int_64) simp_all
    with 3 have "sint (time_Sub t u) = t - u"
      by (simp add: time_Sub_def del: of_int_diff)
    then show ?thesis by simp
  qed
qed

lemma sint_time_Hour: "sint time_Hour = 3600000000000"
  by (simp add: time_Hour_def)

lemma MeditationEnd_pos: "0 < sint (MeditationEnd c now) \<longleftrightarrow> now < meditationEnd c"
  by (simp add: MeditationEnd_def sint_time_Sub_pos)

lemma MeditationEnd_neg: "sint (MeditationEnd c now) < 0 \<longleftrightarrow> meditationEnd c < now"
  by (simp add: MeditationEnd_def sint_time_Sub_neg)

text \<open>
  Claim C4. A pause command (a text the meditate pattern matches, with the capture
  \<open>s\<close>) that reaches a counter that is not paused (\<open>meditationEnd c \<le> now1\<close>, the
  clock \<^verbatim>\<open>MeditationEnd\<close> reads) is answered by the parsed duration alone. The four
  cases cover every result of \<^verbatim>\<open>time.ParseDuration\<close>: no duration, a negative
  one, one of an hour (3600000000000 ns) or more, and any other. The three refusals
  change nothing; the acceptance sets the end of the pause and starts the goroutine
  that clears the store.
\<close>

theorem askToMeditate_replies:
  assumes cmd: "meditateRegex m = Some s"
    and active: "meditationEnd c \<le> now1"
  shows "(time_ParseDuration w s = None \<longrightarrow>
        askToMeditate w now1 now2 c m = (''Sorry, I don't understand you.'', c, []))
    \<and> (\<forall>d. time_ParseDuration w s = Some d \<and> sint d < 0 \<longrightarrow>
        askToMeditate w now1 now2 c m =
          (''Sorry, going back in time is not what I can do.'', c, []))
    \<and> (\<forall>d. time_ParseDuration w s = Some d \<and> 3600000000000 \<le> sint d \<longrightarrow>
        askToMeditate w now1 now2 c m =
          (''It's hard to meditate for more than an hour at one go you know.'', c, []))
    \<and> (\<forall>d. time_ParseDuration w s = Some d \<and> 0 \<le> sint d \<and> sint d < 3600000000000 \<longrightarrow>
        askToMeditate w now1 now2 c m =
          (''Okay, I am going to meditate for '' @ time_DurationString w d,
           c\<lparr>meditationEnd := now2 + sint d\<rparr>, [SleepThenClear d]))"
proof -
  have idle: "\<not> 0 < sint (MeditationEnd c now1)"
    using active by (simp add: MeditationEnd_pos)
  show ?thesis
    using cmd idle
    by (simp add: askToMeditate_def sint_time_Hour SetMeditationEnd_def time_Add_def)
qed

text \<open>The four commands of \<^verbatim>\<open>TestAskToMeditate\<close> that reach a counter not paused.\<close>

theorem askToMeditate_replies_witness:
  "askToMeditate testEnv 0 0 testCounter ''wisemonk meditate for 1hr'' =
     (''Sorry, I don't understand you.'', testCounter, [])
   \<and> askToMeditate testEnv 0 0 testCounter ''wisemonk meditate for -5m'' =
     (''Sorry, going back in time is not what I can do.'', testCounter, [])
   \<and> askToMeditate testEnv 0 0 testCounter ''wisemonk meditate for 200h'' =
     (''It's hard to meditate for more than an hour at one go you know.'', testCounter, [])
   \<and> askToMeditate testEnv 0 0 testCounter ''wisemonk meditate for 5m'' =
     (''Okay, I am going to meditate for 5m0s'',
      testCounter\<lparr>meditationEnd := 300000000000\<rparr>, [SleepThenClear 300000000000])"
proof -
  have active: "meditationEnd testCounter \<le> 0"
    by (simp add: testCounter_def)
  have m1: "meditateRegex ''wisemonk meditate for 1hr'' = Some ''1hr''"
    and m2: "meditateRegex ''wisemonk meditate for -5m'' = Some ''-5m''"
    and m3: "meditateRegex ''wisemonk meditate for 200h'' = Some ''200h''"
    and m4: "meditateRegex ''wisemonk meditate for 5m'' = Some ''5m''"
    by code_simp+
  have p1: "time_ParseDuration testEnv ''1hr'' = None"
    and p2: "time_ParseDuration testEnv ''-5m'' = Some (- 300000000000)"
    and p3: "time_ParseDuration testEnv ''200h'' = Some 720000000000000"
    and p4: "time_ParseDuration testEnv ''5m'' = Some 300000000000"
    by code_simp+
  have s2: "sint (- 300000000000 :: 64 word) < 0"
    and s3: "3600000000000 \<le> sint (720000000000000 :: 64 word)"
    and s4: "0 \<le> sint (300000000000 :: 64 word) \<and> sint (300000000000 :: 64 word) < 3600000000000"
    and s4': "sint (300000000000 :: 64 word) = 300000000000"
    by simp_all
  have d4: "time_DurationString testEnv 300000000000 = ''5m0s''"
    by code_simp
  have "askToMeditate testEnv 0 0 testCounter ''wisemonk meditate for 1hr'' =
     (''Sorry, I don't understand you.'', testCounter, [])"
    using askToMeditate_replies [OF m1 active, of testEnv 0] p1 by blast
  moreover have "askToMeditate testEnv 0 0 testCounter ''wisemonk meditate for -5m'' =
     (''Sorry, going back in time is not what I can do.'', testCounter, [])"
    using askToMeditate_replies [OF m2 active, of testEnv 0] p2 s2 by blast
  moreover have "askToMeditate testEnv 0 0 testCounter ''wisemonk meditate for 200h'' =
     (''It's hard to meditate for more than an hour at one go you know.'', testCounter, [])"
    using askToMeditate_replies [OF m3 active, of testEnv 0] p3 s3 by blast
  moreover have "askToMeditate testEnv 0 0 testCounter ''wisemonk meditate for 5m'' =
     (''Okay, I am going to meditate for '' @ time_DurationString testEnv 300000000000,
      testCounter\<lparr>meditationEnd := 0 + sint (300000000000 :: 64 word)\<rparr>,
      [SleepThenClear 300000000000])"
    using askToMeditate_replies [OF m4 active, of testEnv 0] p4 s4 by blast
  ultimately show ?thesis by (simp only: d4 s4' append.simps add_0)
qed

text \<open>
  Claim C10. A pause command whose duration parses to exactly zero, at a counter that
  is not paused, is accepted: the reply is the acceptance for the duration 0 (Go prints
  the zero duration as \<^verbatim>\<open>0s\<close>), the end of the pause is the instant
  \<^verbatim>\<open>SetMeditationEnd\<close> reads the clock (\<open>now2\<close>), and the goroutine that clears
  the store is started with a sleep of zero.
\<close>

theorem askToMeditate_zero:
  assumes cmd: "meditateRegex m = Some s"
    and zero: "time_ParseDuration w s = Some 0"
    and str: "time_DurationString w 0 = ''0s''"
    and active: "meditationEnd c \<le> now1"
  shows "askToMeditate w now1 now2 c m =
     (''Okay, I am going to meditate for 0s'', c\<lparr>meditationEnd := now2\<rparr>, [SleepThenClear 0])"
proof -
  have idle: "\<not> 0 < sint (MeditationEnd c now1)"
    using active by (simp add: MeditationEnd_pos)
  show ?thesis
    using cmd zero str idle
    by (simp add: askToMeditate_def sint_time_Hour SetMeditationEnd_def time_Add_def)
qed

theorem askToMeditate_zero_witness:
  "meditateRegex ''wisemonk meditate for 0s'' = Some ''0s''
   \<and> askToMeditate testEnv 1000000000000 1000000000007 youngStore ''wisemonk meditate for 0s'' =
     (''Okay, I am going to meditate for 0s'',
      youngStore\<lparr>meditationEnd := 1000000000007\<rparr>, [SleepThenClear 0])"
proof -
  have cmd: "meditateRegex ''wisemonk meditate for 0s'' = Some ''0s''"
    by code_simp
  have zero: "time_ParseDuration testEnv ''0s'' = Some 0"
    by code_simp
  have str: "time_DurationString testEnv 0 = ''0s''"
    by code_simp
  have active: "meditationEnd youngStore \<le> 1000000000000"
    by (simp add: youngStore_def testCounter_def)
  from askToMeditate_zero [OF cmd zero str active, of 1000000000007] cmd
  show ?thesis by simp
qed

section \<open>The dispatch loop: properties\<close>

lemma Increment_records:
  assumes "Increment w memmap c m = Inr c'"
    and "strconv_ParseFloat_int64 w (Timestamp m) = Some ts"
  shows "\<exists>b \<in> set (buckets c'). utime b = ts \<and> msgs b \<noteq> []
      \<and> last (msgs b) = formatMsg w memmap (User m) (substituteUsernames (Text m) memmap)"
proof (cases "Increment_find ts (length (buckets c)) (buckets c)")
  case None
  with assms show ?thesis
    by (auto simp: Increment_def Let_def split: if_splits)
next
  case (Some i)
  define msg where "msg = formatMsg w memmap (User m) (substituteUsernames (Text m) memmap)"
  from Some have i: "i < length (buckets c)" "utime (buckets c ! i) = ts"
    using Increment_find_Some by blast+
  have c': "buckets c' = (buckets c)[i := Increment_bucket (buckets c ! i) msg]"
    using assms Some by (auto simp: Increment_def Let_def msg_def split: if_splits)
  have "Increment_bucket (buckets c ! i) msg \<in> set (buckets c')"
    unfolding c' using i(1) by (simp add: set_update_memI)
  moreover have "utime (Increment_bucket (buckets c ! i) msg) = ts"
    "msgs (Increment_bucket (buckets c ! i) msg) \<noteq> []"
    "last (msgs (Increment_bucket (buckets c ! i) msg)) = msg"
    using i(2) by (simp_all add: Increment_bucket_def)
  ultimately show ?thesis unfolding msg_def by blast
qed

lemma createNewTopic_counter:
  assumes "createNewTopic w c m = Inr (c1, out)"
  shows "c1 = c \<or> c1 = c\<lparr>buckets := []\<rparr>"
  using assms by (auto simp: createNewTopic_def split: if_splits option.splits sum.splits)

lemma askToMeditate_counter:
  assumes "askToMeditate w now1 now2 c m = (r, c2, gs)"
  shows "buckets c2 = buckets c \<and> ChannelId c2 = ChannelId c"
  using assms
  by (auto simp: askToMeditate_def SetMeditationEnd_def split: if_splits option.splits)

text \<open>
  Claim C5. While the end of the pause lies in the future (at the instant the tick
  reads the clock), the tick does nothing: the counter, and with it the store, is
  returned as it was, no message is sent and \<^verbatim>\<open>sendMessage\<close> is not started.
  Messages are recorded all the same, since the message handler never reads the pause
  before it calls \<open>Increment\<close>: whenever the two commands that talk to Discourse do
  not end the process, a message of the counter's channel whose timestamp parses to
  \<open>ts\<close> is handled to the end, and afterwards the store has a bucket for \<open>ts\<close> whose
  last message is this one. (This holds for every reading \<open>t1\<close>, \<open>t2\<close> of the
  clock, so in particular during the pause.)
\<close>

theorem paused_tick_is_noop:
  assumes paused: "now1 < meditationEnd c"
  shows "checkOrIncr_tick w now1 now2 c = Inr \<lparr>counter = c, sent = [], started = []\<rparr>
    \<and> (\<forall>memmap t1 t2 msg ts sent1 c1 sent2.
          searchDiscourse w c (Text msg) = Inr sent1
          \<and> createNewTopic w c (Text msg) = Inr (c1, sent2)
          \<and> Channel msg = ChannelId c
          \<and> strconv_ParseFloat_int64 w (Timestamp msg) = Some ts \<longrightarrow>
          (\<exists>r. checkOrIncr_message w memmap t1 t2 c msg = Inr r
             \<and> (\<exists>b \<in> set (buckets (counter r)). utime b = ts \<and> msgs b \<noteq> []
                  \<and> last (msgs b) =
                      formatMsg w memmap (User msg) (substituteUsernames (Text msg) memmap))))"
proof (intro conjI allI impI)
  have "\<not> sint (MeditationEnd c now1) < 0"
    using paused by (simp add: MeditationEnd_neg)
  then show "checkOrIncr_tick w now1 now2 c = Inr \<lparr>counter = c, sent = [], started = []\<rparr>"
    by (simp add: checkOrIncr_tick_def)
next
  fix memmap t1 t2 and msg :: Msg and ts sent1 c1 sent2
  assume a: "searchDiscourse w c (Text msg) = Inr sent1
          \<and> createNewTopic w c (Text msg) = Inr (c1, sent2)
          \<and> Channel msg = ChannelId c
          \<and> strconv_ParseFloat_int64 w (Timestamp msg) = Some ts"
  obtain m c2 gs where atm: "askToMeditate w t1 t2 c1 (Text msg) = (m, c2, gs)"
    by (cases "askToMeditate w t1 t2 c1 (Text msg)") auto
  have "ChannelId c1 = ChannelId c"
    using a createNewTopic_counter [of w c "Text msg" c1 sent2] by auto
  then have "Channel msg = ChannelId c2"
    using a askToMeditate_counter [OF atm] by simp
  then obtain c3 where inc: "Increment w memmap c2 msg = Inr c3"
    using a Increment_total [of w memmap c2 msg] by auto
  have run: "checkOrIncr_message w memmap t1 t2 c msg =
      Inr \<lparr>counter = c3,
           sent = sent1 @ sent2 @ (if m \<noteq> [] then [(m, ChannelId c2)] else []),
           started = gs\<rparr>"
    using a atm inc by (simp add: checkOrIncr_message_def)
  from Increment_records [OF inc] a
  have "\<exists>b \<in> set (buckets c3). utime b = ts \<and> msgs b \<noteq> []
      \<and> last (msgs b) = formatMsg w memmap (User msg) (substituteUsernames (Text msg) memmap)"
    by simp
  with run show "\<exists>r. checkOrIncr_message w memmap t1 t2 c msg = Inr r
             \<and> (\<exists>b \<in> set (buckets (counter r)). utime b = ts \<and> msgs b \<noteq> []
                  \<and> last (msgs b) =
                      formatMsg w memmap (User msg) (substituteUsernames (Text msg) memmap))"
    by simp
qed

theorem paused_tick_is_noop_witness:
  "checkOrIncr_tick testEnv 1000000000000 1000000000000 pausedStore =
     Inr \<lparr>counter = pausedStore, sent = [], started = []\<rparr>
   \<and> checkOrIncr_tick testEnv 1000000000000 1000000000000 (pausedStore\<lparr>meditationEnd := 0\<rparr>) =
     Inr \<lparr>counter = pausedStore\<lparr>meditationEnd := 0\<rparr>, sent = [], started = [GoSendMessage]\<rparr>
   \<and> (\<exists>r. checkOrIncr_message testEnv Map.empty 1000000000000 1000000000000 pausedStore
            (testMsg ''995'' ''hello'') = Inr r
        \<and> (\<exists>b \<in> set (buckets (counter r)). utime b = 995 \<and> msgs b \<noteq> []
             \<and> last (msgs b) = ''              : hello''))"
proof -
  have paused: "1000000000000 < meditationEnd pausedStore"
    by (simp add: pausedStore_def youngStore_def testCounter_def)
  have s: "searchDiscourse testEnv pausedStore (Text (testMsg ''995'' ''hello'')) = Inr []"
    by code_simp
  have t: "createNewTopic testEnv pausedStore (Text (testMsg ''995'' ''hello''))
      = Inr (pausedStore, [])"
    by code_simp
  have ch: "Channel (testMsg ''995'' ''hello'') = ChannelId pausedStore"
    by code_simp
  have ts: "strconv_ParseFloat_int64 testEnv (Timestamp (testMsg ''995'' ''hello'')) = Some 995"
    by code_simp
  have f: "formatMsg testEnv Map.empty (User (testMsg ''995'' ''hello''))
      (substituteUsernames (Text (testMsg ''995'' ''hello'')) Map.empty) = ''              : hello''"
    by code_simp
  have awake: "checkOrIncr_tick testEnv 1000000000000 1000000000000
      (pausedStore\<lparr>meditationEnd := 0\<rparr>) =
     Inr \<lparr>counter = pausedStore\<lparr>meditationEnd := 0\<rparr>, sent = [], started = [GoSendMessage]\<rparr>"
    by code_simp
  note th = paused_tick_is_noop [OF paused, of testEnv 1000000000000]
  from th have tick: "checkOrIncr_tick testEnv 1000000000000 1000000000000 pausedStore =
     Inr \<lparr>counter = pausedStore, sent = [], started = []\<rparr>"
    by (rule conjunct1)
  from th s t ch ts
  have "\<exists>r. checkOrIncr_message testEnv Map.empty 1000000000000 1000000000000 pausedStore
            (testMsg ''995'' ''hello'') = Inr r
        \<and> (\<exists>b \<in> set (buckets (counter r)). utime b = 995 \<and> msgs b \<noteq> []
             \<and> last (msgs b) = formatMsg testEnv Map.empty (User (testMsg ''995'' ''hello''))
                  (substituteUsernames (Text (testMsg ''995'' ''hello'')) Map.empty))"
    by blast
  with tick awake show ?thesis by (simp only: f)
qed

subsection \<open>One message, several commands\<close>

lemma searchDiscourse_length:
  assumes "searchDiscourse w c m = Inr out"
  shows "length out = (if conf_DiscKey w \<noteq> [] \<and> queryRegex m \<noteq> None then 1 else 0)"
  using assms
  by (auto simp: searchDiscourse_def Let_def
      split: if_splits option.splits sum.splits prod.splits)

lemma createNewTopic_Inr:
  assumes "createNewTopic w c m = Inr (c1, out)"
  shows "if conf_DiscKey w \<noteq> [] \<and> createRegex m \<noteq> None
     then c1 = c\<lparr>buckets := []\<rparr>
       \<and> (\<exists>url. createTopic w c (sanitizeTitle (the (createRegex m))) = Inr url
            \<and> out = [(''New topic created with url: '' @ url, ChannelId c)])
     else c1 = c \<and> out = []"
  using assms
  by (auto simp: createNewTopic_def split: if_splits option.splits sum.splits)

text \<open>The pause command does not look at the store.\<close>

lemma askToMeditate_buckets:
  "askToMeditate w now1 now2 (c\<lparr>buckets := bs\<rparr>) m =
     (case askToMeditate w now1 now2 c m of (r, c2, gs) \<Rightarrow> (r, c2\<lparr>buckets := bs\<rparr>, gs))"
  by (simp add: askToMeditate_def MeditationEnd_def SetMeditationEnd_def
      split: option.splits)

lemma askToMeditate_reply:
  "fst (askToMeditate w now1 now2 c m) \<noteq> [] \<longleftrightarrow> meditateRegex m \<noteq> None"
  by (simp add: askToMeditate_def split: option.splits)

lemma Increment_meditationEnd:
  assumes "Increment w memmap c m = Inr c'"
  shows "meditationEnd c' = meditationEnd c"
  using assms by (auto simp: Increment_def Let_def split: if_splits option.splits)

lemma Increment_empty:
  assumes "Increment w memmap c m = Inr c'" and "buckets c = []"
  shows "\<exists>ts. buckets c' =
     [\<lparr>utime = ts, count' = 1,
       msgs = [formatMsg w memmap (User m) (substituteUsernames (Text m) memmap)]\<rparr>]"
  using assms by (auto simp: Increment_def Let_def split: if_splits option.splits)

text \<open>
  Claim C3, as the code has it. The handler does not pick one command: it runs the
  search, the archive and the pause command one after the other, each on its own
  pattern and whatever the others matched. In a run that reaches its end, the messages
  sent are those of the search, then that of the archive command, then the reply of the
  pause command: one from the search when a key is configured and the query pattern
  matches, the announcement of the new topic when a key is configured and the archive
  pattern matches, and the reply of \<open>askToMeditate\<close> when the pause pattern matches.
  When the archive command runs, the store is emptied before the message is recorded,
  so that afterwards it holds the bucket of this message alone. The pause command
  replies, sets the end of the pause and starts its goroutine exactly as it does on the
  counter the handler was given, whether or not the other patterns matched. So a text
  that several patterns match triggers every one of these commands.
\<close>

theorem checkOrIncr_message_runs_every_command:
  assumes run: "checkOrIncr_message w memmap now1 now2 c msg = Inr r"
  shows "\<exists>sent1 sent2 sent3.
      sent r = sent1 @ sent2 @ sent3
      \<and> searchDiscourse w c (Text msg) = Inr sent1
      \<and> length sent1 =
          (if conf_DiscKey w \<noteq> [] \<and> queryRegex (Text msg) \<noteq> None then 1 else 0)
      \<and> (if conf_DiscKey w \<noteq> [] \<and> createRegex (Text msg) \<noteq> None
         then \<exists>url. sent2 = [(''New topic created with url: '' @ url, ChannelId c)]
         else sent2 = [])
      \<and> (if meditateRegex (Text msg) \<noteq> None
         then sent3 = [(fst (askToMeditate w now1 now2 c (Text msg)), ChannelId c)]
         else sent3 = [])
      \<and> (conf_DiscKey w \<noteq> [] \<and> createRegex (Text msg) \<noteq> None \<longrightarrow>
          (\<exists>ts. buckets (counter r) =
             [\<lparr>utime = ts, count' = 1,
               msgs = [formatMsg w memmap (User msg)
                         (substituteUsernames (Text msg) memmap)]\<rparr>]))
      \<and> meditationEnd (counter r) =
          meditationEnd (fst (snd (askToMeditate w now1 now2 c (Text msg))))
      \<and> started r = snd (snd (askToMeditate w now1 now2 c (Text msg)))"
proof -
  from run obtain sent1 where s: "searchDiscourse w c (Text msg) = Inr sent1"
    by (auto simp: checkOrIncr_message_def split: sum.splits)
  from run s obtain c1 sent2 where t: "createNewTopic w c (Text msg) = Inr (c1, sent2)"
    by (auto simp: checkOrIncr_message_def split: sum.splits prod.splits)
  obtain m c2 gs where a: "askToMeditate w now1 now2 c1 (Text msg) = (m, c2, gs)"
    by (cases "askToMeditate w now1 now2 c1 (Text msg)") auto
  from run s t a obtain c3 where i: "Increment w memmap c2 msg = Inr c3"
    by (auto simp: checkOrIncr_message_def split: sum.splits)
  have r: "r = \<lparr>counter = c3,
      sent = sent1 @ sent2 @ (if m \<noteq> [] then [(m, ChannelId c2)] else []), started = gs\<rparr>"
    using run s t a i by (simp add: checkOrIncr_message_def)
  have c1: "c1 = c \<or> c1 = c\<lparr>buckets := []\<rparr>"
    using t by (rule createNewTopic_counter)
  obtain m' c2' gs' where a': "askToMeditate w now1 now2 c (Text msg) = (m', c2', gs')"
    by (cases "askToMeditate w now1 now2 c (Text msg)") auto
  have same: "m = m' \<and> gs = gs' \<and> meditationEnd c2 = meditationEnd c2'"
    using c1 a a' by (auto simp: askToMeditate_buckets)
  have ch: "ChannelId c2 = ChannelId c"
    using askToMeditate_counter [OF a] c1 by auto
  have m: "m \<noteq> [] \<longleftrightarrow> meditateRegex (Text msg) \<noteq> None"
    using askToMeditate_reply [of w now1 now2 c "Text msg"] a' same by simp
  have p1: "length sent1 =
      (if conf_DiscKey w \<noteq> [] \<and> queryRegex (Text msg) \<noteq> None then 1 else 0)"
    using s by (rule searchDiscourse_length)
  have p2: "if conf_DiscKey w \<noteq> [] \<and> createRegex (Text msg) \<noteq> None
      then \<exists>url. sent2 = [(''New topic created with url: '' @ url, ChannelId c)]
      else sent2 = []"
    using createNewTopic_Inr [OF t] by (auto split: if_splits)
  have p3: "if meditateRegex (Text msg) \<noteq> None
      then (if m \<noteq> [] then [(m, ChannelId c2)] else [])
        = [(fst (askToMeditate w now1 now2 c (Text msg)), ChannelId c)]
      else (if m \<noteq> [] then [(m, ChannelId c2)] else []) = []"
    using m same a' ch by simp
  have p4: "meditationEnd (counter r) =
      meditationEnd (fst (snd (askToMeditate w now1 now2 c (Text msg))))"
    using r Increment_meditationEnd [OF i] same a' by simp
  have p5: "started r = snd (snd (askToMeditate w now1 now2 c (Text msg)))"
    using r same a' by simp
  have p0: "sent r = sent1 @ sent2 @ (if m \<noteq> [] then [(m, ChannelId c2)] else [])"
    using r by simp
  have p6: "conf_DiscKey w \<noteq> [] \<and> createRegex (Text msg) \<noteq> None \<longrightarrow>
      (\<exists>ts. buckets (counter r) =
         [\<lparr>utime = ts, count' = 1,
           msgs = [formatMsg w memmap (User msg) (substituteUsernames (Text msg) memmap)]\<rparr>])"
  proof
    assume "conf_DiscKey w \<noteq> [] \<and> createRegex (Text msg) \<noteq> None"
    then have "c1 = c\<lparr>buckets := []\<rparr>"
      using createNewTopic_Inr [OF t] by simp
    then have "buckets c2 = []"
      using askToMeditate_counter [OF a] by simp
    with Increment_empty [OF i] r
    show "\<exists>ts. buckets (counter r) =
         [\<lparr>utime = ts, count' = 1,
           msgs = [formatMsg w memmap (User msg) (substituteUsernames (Text msg) memmap)]\<rparr>]"
      by simp
  qed
  from p0 s p1 p2 p3 p4 p5 p6 show ?thesis by blast
qed

text \<open>
  A text that the archive and the pause pattern both match, sent to a counter that is
  not paused: the announcement of the topic and the acceptance of the pause are both
  sent, the pause is set and its goroutine started.
\<close>

theorem checkOrIncr_message_runs_every_command_witness:
  "\<exists>r. checkOrIncr_message testEnv Map.empty 1000000000000 1000000000000 youngStore
         (testMsg ''995'' twoCommands) = Inr r
     \<and> sent r =
         [(''New topic created with url: http://discourse/t/test-title-created/1'', ''general''),
          (''Okay, I am going to meditate for 5m0s'', ''general'')]
     \<and> meditationEnd (counter r) = 1300000000000
     \<and> started r = [SleepThenClear 300000000000]"
proof -
  let ?msg = "testMsg ''995'' twoCommands"
  define r where "r =
     \<lparr>counter = youngStore
        \<lparr>buckets := [\<lparr>utime = 995, count' = 1,
                       msgs = [''              : wisemonk create topic wisemonk meditate for 5m'']\<rparr>],
         meditationEnd := 1300000000000\<rparr>,
      sent = [(''New topic created with url: http://discourse/t/test-title-created/1'',
               ''general''),
              (''Okay, I am going to meditate for 5m0s'', ''general'')],
      started = [SleepThenClear 300000000000]\<rparr>"
  have run: "checkOrIncr_message testEnv Map.empty 1000000000000 1000000000000
      youngStore ?msg = Inr r"
    unfolding r_def by code_simp
  have k: "conf_DiscKey testEnv \<noteq> []" "queryRegex (Text ?msg) = None"
    "createRegex (Text ?msg) \<noteq> None" "meditateRegex (Text ?msg) \<noteq> None"
    by code_simp+
  have ch: "ChannelId youngStore = ''general''"
    by code_simp
  have a: "askToMeditate testEnv 1000000000000 1000000000000 youngStore (Text ?msg) =
     (''Okay, I am going to meditate for 5m0s'',
      youngStore\<lparr>meditationEnd := 1300000000000\<rparr>, [SleepThenClear 300000000000])"
    by code_simp
  from checkOrIncr_message_runs_every_command [OF run]
  obtain sent1 sent2 sent3 where th: "sent r = sent1 @ sent2 @ sent3"
    "length sent1 = 0"
    "\<exists>url. sent2 = [(''New topic created with url: '' @ url, ''general'')]"
    "sent3 = [(''Okay, I am going to meditate for 5m0s'', ''general'')]"
    "meditationEnd (counter r) = 1300000000000"
    "started r = [SleepThenClear 300000000000]"
    using k a ch by auto
  from th(1-4) obtain url where
    "sent r = [(''New topic created with url: '' @ url, ''general''),
               (''Okay, I am going to meditate for 5m0s'', ''general'')]"
    by auto
  moreover have "sent r =
      [(''New topic created with url: http://discourse/t/test-title-created/1'', ''general''),
       (''Okay, I am going to meditate for 5m0s'', ''general'')]"
    by (simp add: r_def)
  ultimately show ?thesis using run th(5,6) by blast
qed

text \<open>
  Claim C3 as it is written says that only the first matching command in the order
  search, archive, pause is acted upon. It fails on this text, which the archive
  pattern and the pause pattern match (and the query pattern does not): the handler
  creates the topic and empties the store, and it also accepts the pause, sets
  \<^verbatim>\<open>meditationEnd\<close> and starts the goroutine of the pause.
\<close>

theorem checkOrIncr_message_two_commands:
  "queryRegex twoCommands = None
   \<and> createRegex twoCommands = Some ''wisemonk meditate for 5m''
   \<and> meditateRegex twoCommands = Some ''5m''
   \<and> checkOrIncr_message testEnv Map.empty 1000000000000 1000000000000 youngStore
       (testMsg ''995'' twoCommands) =
     Inr \<lparr>counter = youngStore
            \<lparr>buckets := [\<lparr>utime = 995, count' = 1,
                           msgs = [''              : wisemonk create topic wisemonk meditate for 5m'']\<rparr>],
             meditationEnd := 1300000000000\<rparr>,
          sent = [(''New topic created with url: http://discourse/t/test-title-created/1'',
                   ''general''),
                  (''Okay, I am going to meditate for 5m0s'', ''general'')],
          started = [SleepThenClear 300000000000]\<rparr>"
  by code_simp

section \<open>Titles: properties\<close>

lemma takeWhile_eq_replicate:
  "takeWhile (\<lambda>ch. ch = c) xs = replicate (length (takeWhile (\<lambda>ch. ch = c) xs)) c"
  by (induction xs) auto

text \<open>
  \<open>strings_Trim_space\<close> removes a run of spaces at each end, and what is left neither
  starts nor ends with a space.
\<close>

lemma strings_Trim_space_decomp:
  "\<exists>n k. s = replicate n CHR '' '' @ strings_Trim_space s @ replicate k CHR '' ''"
proof -
  define sp where "sp = (\<lambda>ch. ch = CHR '' '')"
  define s1 where "s1 = dropWhile sp s"
  have a: "s = takeWhile sp s @ s1"
    by (simp add: s1_def)
  have "s1 = rev (takeWhile sp (rev s1) @ dropWhile sp (rev s1))"
    by (simp only: takeWhile_dropWhile_id rev_rev_ident)
  also have "\<dots> = rev (dropWhile sp (rev s1)) @ rev (takeWhile sp (rev s1))"
    by (simp only: rev_append)
  finally have b: "s1 = strings_Trim_space s @ rev (takeWhile sp (rev s1))"
    by (simp only: strings_Trim_space_def sp_def s1_def)
  have c: "takeWhile sp s = replicate (length (takeWhile sp s)) CHR '' ''"
    unfolding sp_def by (rule takeWhile_eq_replicate)
  have "takeWhile sp (rev s1) = replicate (length (takeWhile sp (rev s1))) CHR '' ''"
    unfolding sp_def by (rule takeWhile_eq_replicate)
  then have d: "rev (takeWhile sp (rev s1)) = replicate (length (takeWhile sp (rev s1))) CHR '' ''"
    by (metis rev_replicate)
  have "s = replicate (length (takeWhile sp s)) CHR '' '' @ strings_Trim_space s
      @ replicate (length (takeWhile sp (rev s1))) CHR '' ''"
    using a b c d by metis
  then show ?thesis by blast
qed

lemma strings_Trim_space_ends:
  assumes "strings_Trim_space s \<noteq> []"
  shows "hd (strings_Trim_space s) \<noteq> CHR '' '' \<and> last (strings_Trim_space s) \<noteq> CHR '' ''"
proof -
  define sp where "sp = (\<lambda>ch. ch = CHR '' '')"
  define s1 where "s1 = dropWhile sp s"
  define s2 where "s2 = dropWhile sp (rev s1)"
  have t: "strings_Trim_space s = rev s2"
    by (simp add: strings_Trim_space_def sp_def s1_def s2_def)
  with assms have ne: "s2 \<noteq> []" by simp
  then have "\<not> sp (hd s2)"
    unfolding s2_def by (rule hd_dropWhile)
  then have l: "last (strings_Trim_space s) \<noteq> CHR '' ''"
    using ne by (simp add: t last_rev sp_def)
  have s1: "s1 \<noteq> []"
    using ne by (auto simp: s2_def)
  then have h1: "\<not> sp (hd s1)"
    unfolding s1_def by (rule hd_dropWhile)
  have "hd s1 \<in> set (rev s1)"
    using s1 by simp
  then have "last s2 = last (rev s1)"
    unfolding s2_def using h1 by (rule dropWhile_last)
  then have "hd (strings_Trim_space s) = hd s1"
    using ne s1 by (simp add: t hd_rev last_rev)
  with h1 l show ?thesis by (simp add: sp_def)
qed

lemma sorted_le_last: "sorted (xs :: nat list) \<Longrightarrow> x \<in> set xs \<Longrightarrow> x \<le> last xs"
  by (induction xs) auto

text \<open>\<open>strings_LastIndex_space\<close> is -1 or the index of a space that no space follows.\<close>

lemma strings_LastIndex_space_cases:
  "strings_LastIndex_space t = - 1 \<and> CHR '' '' \<notin> set t
   \<or> (\<exists>i < length t. strings_LastIndex_space t = int i \<and> t ! i = CHR '' ''
        \<and> CHR '' '' \<notin> set (drop (Suc i) t))"
proof -
  define fs where "fs = filter (\<lambda>i. t ! i = CHR '' '') [0..<length t]"
  show ?thesis
  proof (cases fs)
    case Nil
    then have "\<forall>i < length t. t ! i \<noteq> CHR '' ''"
      by (auto simp: fs_def filter_empty_conv)
    then have "CHR '' '' \<notin> set t"
      by (auto simp: in_set_conv_nth)
    moreover have "strings_LastIndex_space t = - 1"
      using Nil by (simp add: strings_LastIndex_space_def fs_def [symmetric])
    ultimately show ?thesis by simp
  next
    case (Cons i "is")
    define k where "k = last fs"
    have "k \<in> set fs"
      using Cons by (simp add: k_def)
    then have k: "k < length t" "t ! k = CHR '' ''"
      by (simp_all add: fs_def)
    have srt: "sorted fs"
      unfolding fs_def by (rule sorted_wrt_filter) simp
    have "CHR '' '' \<notin> set (drop (Suc k) t)"
    proof
      assume "CHR '' '' \<in> set (drop (Suc k) t)"
      then obtain j where j: "j < length (drop (Suc k) t)" "drop (Suc k) t ! j = CHR '' ''"
        by (auto simp: in_set_conv_nth)
      then have "Suc k + j \<in> set fs"
        by (simp add: fs_def)
      then have "Suc k + j \<le> last fs"
        using srt by (simp add: sorted_le_last)
      then show False by (simp add: k_def)
    qed
    moreover have "strings_LastIndex_space t = int k"
      using Cons by (simp add: strings_LastIndex_space_def fs_def [symmetric] k_def)
    ultimately show ?thesis using k by blast
  qed
qed

lemma strings_LastIndex_space_last:
  assumes "i < length t" "t ! i = CHR '' ''" "CHR '' '' \<notin> set (drop (Suc i) t)"
  shows "strings_LastIndex_space t = int i"
proof -
  have "CHR '' '' \<in> set t"
    using assms(1,2) by (metis nth_mem)
  with strings_LastIndex_space_cases [of t]
  obtain k where k: "k < length t" "strings_LastIndex_space t = int k" "t ! k = CHR '' ''"
    "CHR '' '' \<notin> set (drop (Suc k) t)"
    by auto
  have "\<not> i < k"
  proof
    assume "i < k"
    then have "t ! k = drop (Suc i) t ! (k - Suc i)" "k - Suc i < length (drop (Suc i) t)"
      using k(1) by simp_all
    then have "t ! k \<in> set (drop (Suc i) t)" by (metis nth_mem)
    with k(3) assms(3) show False by simp
  qed
  moreover have "\<not> k < i"
  proof
    assume "k < i"
    then have "t ! i = drop (Suc k) t ! (i - Suc k)" "i - Suc k < length (drop (Suc k) t)"
      using assms(1) by simp_all
    then have "t ! i \<in> set (drop (Suc k) t)" by (metis nth_mem)
    with k(4) assms(2) show False by simp
  qed
  ultimately show ?thesis using k(2) by simp
qed

lemma strings_LastIndex_space_low:
  assumes "CHR '' '' \<notin> set (drop n t)"
  shows "strings_LastIndex_space t < int n"
proof -
  from strings_LastIndex_space_cases [of t] show ?thesis
  proof (elim disjE conjE exE)
    assume "strings_LastIndex_space t = - 1"
    then show ?thesis by simp
  next
    fix i assume i: "i < length t" "strings_LastIndex_space t = int i" "t ! i = CHR '' ''"
    have "\<not> n \<le> i"
    proof
      assume "n \<le> i"
      then have "t ! i = drop n t ! (i - n)" "i - n < length (drop n t)"
        using i(1) by simp_all
      then have "t ! i \<in> set (drop n t)" by (metis nth_mem)
      with i(3) assms show False by simp
    qed
    then show ?thesis using i(2) by simp
  qed
qed

text \<open>The part of \<open>sanitizeTitle\<close> that a title of twenty bytes or more reaches.\<close>

lemma sanitizeTitle_long:
  assumes "20 \<le> length (strings_Trim_space title)"
  shows "sanitizeTitle title =
     (let u = take 100 (strings_Trim_space title); idx = strings_LastIndex_space u
      in if 20 \<le> idx then take (nat idx) u else u)"
proof -
  have "(if 100 < length (strings_Trim_space title)
         then take 100 (strings_Trim_space title) else strings_Trim_space title)
      = take 100 (strings_Trim_space title)"
    by simp
  then show ?thesis
    using assms by (auto simp: sanitizeTitle_def Let_def)
qed

text \<open>
  Claim C6, as the code has it. With \<open>t\<close> the title without the spaces at its two
  ends (only the space character is trimmed) and \<open>u\<close> the first hundred bytes of
  \<open>t\<close>: a \<open>t\<close> shorter than twenty bytes gets the prefix and nothing else happens to
  it; a longer one is cut to \<open>u\<close> and then, whenever \<open>u\<close> has a space at an index of
  20 or more, cut again at the last space of \<open>u\<close>, whatever its length. So a title of
  20 to 100 bytes comes back unchanged only when it has no space from index 20 on.
\<close>

theorem sanitizeTitle_spec:
  assumes t: "t = strings_Trim_space title"
    and u: "u = take 100 t"
  shows "(\<exists>n k. title = replicate n CHR '' '' @ t @ replicate k CHR '' '')
    \<and> (t \<noteq> [] \<longrightarrow> hd t \<noteq> CHR '' '' \<and> last t \<noteq> CHR '' '')
    \<and> (length t < 20 \<longrightarrow>
         sanitizeTitle title = ''Topic created by wisemonk with title: '' @ t)
    \<and> (20 \<le> length t \<and> CHR '' '' \<notin> set (drop 20 u) \<longrightarrow> sanitizeTitle title = u)
    \<and> (\<forall>i. 20 \<le> length t \<and> 20 \<le> i \<and> i < length u \<and> u ! i = CHR '' ''
           \<and> CHR '' '' \<notin> set (drop (Suc i) u) \<longrightarrow>
         sanitizeTitle title = take i u)"
proof (intro conjI allI impI)
  show "\<exists>n k. title = replicate n CHR '' '' @ t @ replicate k CHR '' ''"
    unfolding t by (rule strings_Trim_space_decomp)
next
  assume "t \<noteq> []"
  then show "hd t \<noteq> CHR '' ''" "last t \<noteq> CHR '' ''"
    unfolding t using strings_Trim_space_ends by blast+
next
  assume "length t < 20"
  then show "sanitizeTitle title = ''Topic created by wisemonk with title: '' @ t"
    by (simp add: sanitizeTitle_def titlePrefix_def t)
next
  assume a: "20 \<le> length t \<and> CHR '' '' \<notin> set (drop 20 u)"
  then have "strings_LastIndex_space u < int 20"
    by (intro strings_LastIndex_space_low) simp
  then show "sanitizeTitle title = u"
    using a sanitizeTitle_long [of title] by (simp add: Let_def t u)
next
  fix i
  assume a: "20 \<le> length t \<and> 20 \<le> i \<and> i < length u \<and> u ! i = CHR '' ''
           \<and> CHR '' '' \<notin> set (drop (Suc i) u)"
  then have "strings_LastIndex_space u = int i"
    by (intro strings_LastIndex_space_last) simp_all
  then show "sanitizeTitle title = take i u"
    using a sanitizeTitle_long [of title] by (simp add: Let_def t u)
qed

text \<open>
  Three titles of \<^verbatim>\<open>TestSanitizeTitle\<close>: a short one with spaces in front, one of
  exactly twenty bytes without a space at its end, and the long one, whose first
  hundred bytes have their last space at index 97.
\<close>

theorem sanitizeTitle_spec_witness:
  "sanitizeTitle ''          Short title'' = ''Topic created by wisemonk with title: Short title''
   \<and> sanitizeTitle ''This title is 20char'' = ''This title is 20char''
   \<and> sanitizeTitle longTitle = take 97 longTitle"
proof -
  have t1: "''Short title'' = strings_Trim_space ''          Short title''"
    and t2: "''This title is 20char'' = strings_Trim_space ''This title is 20char''"
    and t3: "longTitle = strings_Trim_space longTitle"
    by code_simp+
  have u1: "''Short title'' = take 100 ''Short title''"
    and u2: "''This title is 20char'' = take 100 ''This title is 20char''"
    and u3: "take 100 longTitle = take 100 longTitle"
    by simp_all
  have l1: "length ''Short title'' < 20"
    and l2: "20 \<le> length ''This title is 20char''
        \<and> CHR '' '' \<notin> set (drop 20 ''This title is 20char'')"
    by simp_all
  have l3: "20 \<le> length longTitle \<and> 20 \<le> (97 :: nat) \<and> 97 < length (take 100 longTitle)
      \<and> take 100 longTitle ! 97 = CHR '' ''
      \<and> CHR '' '' \<notin> set (drop (Suc 97) (take 100 longTitle))"
    by code_simp
  have c3: "take 97 (take 100 longTitle) = take 97 longTitle"
    by simp
  have "sanitizeTitle ''          Short title''
      = ''Topic created by wisemonk with title: '' @ ''Short title''"
    using sanitizeTitle_spec [OF t1 u1] l1 by blast
  moreover have "sanitizeTitle ''This title is 20char'' = ''This title is 20char''"
    using sanitizeTitle_spec [OF t2 u2] l2 by blast
  moreover have "sanitizeTitle longTitle = take 97 (take 100 longTitle)"
    using sanitizeTitle_spec [OF t3 u3] l3 by blast
  ultimately show ?thesis by (simp only: c3 append.simps)
qed

text \<open>
  Claim C6 as it is written says that a trimmed title of 20 to 100 characters is
  returned unchanged. The second title of \<^verbatim>\<open>TestSanitizeTitle\<close> has 27 bytes and
  no space at either end, and it loses its last word: its last space is at index 20.
\<close>

theorem sanitizeTitle_cuts_short_title:
  "strings_Trim_space ''Long title with word breaks'' = ''Long title with word breaks''
   \<and> length ''Long title with word breaks'' = 27
   \<and> sanitizeTitle ''Long title with word breaks'' = ''Long title with word''"
  by code_simp

section \<open>The notifier: properties\<close>

lemma topicUrl_not_empty: "topicUrl w tb \<noteq> []"
  by (simp add: topicUrl_def)

text \<open>
  \<open>createTopic\<close> returns the empty url exactly when the post is answered with a
  status other than 200 and 403 and the body can be read; it is fatal when the post
  fails, on 403, and when the body cannot be read or decoded.
\<close>

lemma createTopic_empty_url:
  "createTopic w c title = Inr [] \<longleftrightarrow>
   (\<exists>status b. http_Post w (discourseQuery w ''posts.json'' [])
        \<lparr>Title = title,
         Raw = [CHR 0x60, CHR 0x60, CHR 0x60] @ transcript 1 (buckets c)
               @ [CHR 0x60, CHR 0x60, CHR 0x60],
         Category = CreateTopicIn c\<rparr> = HttpResp status (Some b)
      \<and> status \<noteq> 200 \<and> status \<noteq> 403)"
  by (auto simp: createTopic_def Let_def topicUrl_not_empty
      split: HttpReply.splits option.splits if_splits)

lemma callYoda_msg_proverb:
  "\<exists>p \<in> set proverbs. callYoda_msg w m =
     [CHR 0x60, CHR 0x60, CHR 0x60] @ yoda w @ [CHR 0x0A] @ p @ [CHR 0x0A] @ m
       @ [CHR 0x60, CHR 0x60, CHR 0x60]"
proof -
  have "proverbs \<noteq> []"
    by (simp add: proverbs_def)
  then have "rand_Intn w (length proverbs) mod length proverbs < length proverbs"
    by simp
  then have "proverbs ! (rand_Intn w (length proverbs) mod length proverbs) \<in> set proverbs"
    by (rule nth_mem)
  then show ?thesis
    unfolding callYoda_msg_def by blast
qed

text \<open>
  When \<open>sendMessage\<close> returns at all: without a key always; with a key, when the
  first bucket has a message (\<^verbatim>\<open>c.buckets[0].msgs[0]\<close> is an index out of range
  otherwise) and \<open>createTopic\<close> is not fatal.
\<close>

lemma sendMessage_returns:
  "(\<exists>r. sendMessage w c = Inr r) \<longleftrightarrow>
      conf_DiscKey w = []
      \<or> (\<exists>b bs m0 ms url. buckets c = b # bs \<and> msgs b = m0 # ms
           \<and> createTopic w c (sanitizeTitle m0) = Inr url)"
  by (auto simp: sendMessage_def callYoda_def split: if_splits list.splits sum.splits)

text \<open>
  Claim C7, as the code has it. \<open>sendMessage\<close> does not always get to send:
  \<open>createTopic\<close> ends the process when the post fails, on the status 403 and on a
  reply it cannot read or decode. Whenever \<open>sendMessage\<close> returns, it has emptied the
  store and sent exactly one message, to the channel of the counter. It does return
  when no key is configured, and when the first bucket has a message and
  \<open>createTopic\<close> returns a url: without a key, and when \<open>createTopic\<close> returns the
  empty url, the message is the picture and the proverb with an empty closing line (no
  link); with a url that is not empty the closing line is the link.
\<close>

theorem sendMessage_spec:
  "(\<forall>c' out. sendMessage w c = Inr (c', out) \<longrightarrow>
      c' = c\<lparr>buckets := []\<rparr> \<and> (\<exists>m. out = [(callYoda_msg w m, ChannelId c)]))
   \<and> (conf_DiscKey w = [] \<longrightarrow>
      sendMessage w c = Inr (c\<lparr>buckets := []\<rparr>, [(callYoda_msg w [], ChannelId c)]))
   \<and> (\<forall>b bs m0 ms. conf_DiscKey w \<noteq> [] \<and> buckets c = b # bs \<and> msgs b = m0 # ms
         \<and> createTopic w c (sanitizeTitle m0) = Inr [] \<longrightarrow>
      sendMessage w c = Inr (c\<lparr>buckets := []\<rparr>, [(callYoda_msg w [], ChannelId c)]))
   \<and> (\<forall>b bs m0 ms url. conf_DiscKey w \<noteq> [] \<and> buckets c = b # bs \<and> msgs b = m0 # ms
         \<and> createTopic w c (sanitizeTitle m0) = Inr url \<and> url \<noteq> [] \<longrightarrow>
      sendMessage w c =
        Inr (c\<lparr>buckets := []\<rparr>,
             [(callYoda_msg w (''Please move your discussion to '' @ url), ChannelId c)]))
   \<and> (\<forall>m. \<exists>p \<in> set proverbs. callYoda_msg w m =
        [CHR 0x60, CHR 0x60, CHR 0x60] @ yoda w @ [CHR 0x0A] @ p @ [CHR 0x0A] @ m
          @ [CHR 0x60, CHR 0x60, CHR 0x60])"
proof (intro conjI)
  show "\<forall>c' out. sendMessage w c = Inr (c', out) \<longrightarrow>
      c' = c\<lparr>buckets := []\<rparr> \<and> (\<exists>m. out = [(callYoda_msg w m, ChannelId c)])"
    by (auto simp: sendMessage_def callYoda_def split: if_splits list.splits sum.splits)
next
  show "conf_DiscKey w = [] \<longrightarrow>
      sendMessage w c = Inr (c\<lparr>buckets := []\<rparr>, [(callYoda_msg w [], ChannelId c)])"
    by (simp add: sendMessage_def callYoda_def)
next
  show "\<forall>b bs m0 ms. conf_DiscKey w \<noteq> [] \<and> buckets c = b # bs \<and> msgs b = m0 # ms
         \<and> createTopic w c (sanitizeTitle m0) = Inr [] \<longrightarrow>
      sendMessage w c = Inr (c\<lparr>buckets := []\<rparr>, [(callYoda_msg w [], ChannelId c)])"
    by (simp add: sendMessage_def callYoda_def)
next
  show "\<forall>b bs m0 ms url. conf_DiscKey w \<noteq> [] \<and> buckets c = b # bs \<and> msgs b = m0 # ms
         \<and> createTopic w c (sanitizeTitle m0) = Inr url \<and> url \<noteq> [] \<longrightarrow>
      sendMessage w c =
        Inr (c\<lparr>buckets := []\<rparr>,
             [(callYoda_msg w (''Please move your discussion to '' @ url), ChannelId c)])"
    by (simp add: sendMessage_def callYoda_def)
next
  show "\<forall>m. \<exists>p \<in> set proverbs. callYoda_msg w m =
        [CHR 0x60, CHR 0x60, CHR 0x60] @ yoda w @ [CHR 0x0A] @ p @ [CHR 0x0A] @ m
          @ [CHR 0x60, CHR 0x60, CHR 0x60]"
    using callYoda_msg_proverb by blast
qed

text \<open>
  The alert without a key, with a server that answers 404 (the empty url), and with a
  server that creates the topic.
\<close>

theorem sendMessage_spec_witness:
  "sendMessage noKeyEnv alertStore =
     Inr (alertStore\<lparr>buckets := []\<rparr>, [(callYoda_msg noKeyEnv [], ''general'')])
   \<and> createTopic notFoundEnv alertStore (sanitizeTitle ''a'') = Inr []
   \<and> sendMessage notFoundEnv alertStore =
     Inr (alertStore\<lparr>buckets := []\<rparr>, [(callYoda_msg notFoundEnv [], ''general'')])
   \<and> sendMessage testEnv alertStore =
     Inr (alertStore\<lparr>buckets := []\<rparr>,
          [(callYoda_msg testEnv
             ''Please move your discussion to http://discourse/t/test-title-created/1'',
            ''general'')])"
proof -
  have ch: "ChannelId alertStore = ''general''"
    by code_simp
  have k0: "conf_DiscKey noKeyEnv = []"
    by code_simp
  have k1: "conf_DiscKey notFoundEnv \<noteq> []" and k2: "conf_DiscKey testEnv \<noteq> []"
    by code_simp+
  have b: "buckets alertStore = \<lparr>utime = 990, count' = 1, msgs = [''a'']\<rparr> # []"
    and m: "msgs \<lparr>utime = 990, count' = 1, msgs = [''a'']\<rparr> = ''a'' # []"
    by code_simp+
  have u1: "createTopic notFoundEnv alertStore (sanitizeTitle ''a'') = Inr []"
    by code_simp
  have u2: "createTopic testEnv alertStore (sanitizeTitle ''a'')
      = Inr ''http://discourse/t/test-title-created/1''"
    by code_simp
  have "sendMessage noKeyEnv alertStore =
     Inr (alertStore\<lparr>buckets := []\<rparr>, [(callYoda_msg noKeyEnv [], ChannelId alertStore)])"
    using sendMessage_spec [of noKeyEnv alertStore] k0 by blast
  moreover have "sendMessage notFoundEnv alertStore =
     Inr (alertStore\<lparr>buckets := []\<rparr>, [(callYoda_msg notFoundEnv [], ChannelId alertStore)])"
    using sendMessage_spec [of notFoundEnv alertStore] k1 b m u1 by blast
  moreover have "sendMessage testEnv alertStore =
     Inr (alertStore\<lparr>buckets := []\<rparr>,
          [(callYoda_msg testEnv
             (''Please move your discussion to '' @ ''http://discourse/t/test-title-created/1''),
            ChannelId alertStore)])"
    using sendMessage_spec [of testEnv alertStore] k2 b m u2 by blast
  ultimately show ?thesis using u1 by (simp only: ch append.simps)
qed

text \<open>
  Claim C7 as it is written says that every threshold alert sends one message and
  empties the store. With a key configured and a server that answers 403, the tick
  finds the threshold met and starts \<open>sendMessage\<close>, which ends the process in
  \<open>createTopic\<close> (\<^verbatim>\<open>log.Fatal("Discourse returned forbidden error.")\<close>): nothing is
  sent and the store is not emptied.
\<close>

theorem sendMessage_forbidden:
  "checkOrIncr_tick forbiddenEnv 1000000000000 1000000000000 alertStore =
     Inr \<lparr>counter = alertStore, sent = [], started = [GoSendMessage]\<rparr>
   \<and> sendMessage forbiddenEnv alertStore = Inl FatalForbidden"
  by code_simp

section \<open>The query pattern: properties\<close>

lemma isDigit_chars:
  assumes "isDigit ch"
  shows "ch \<noteq> CHR '' ''" "ch \<noteq> CHR 0x0A" "ch \<noteq> CHR ''-''" "ch \<noteq> CHR ''+''"
  using assms by (auto simp: isDigit_def)

lemma digitVal_range:
  assumes "isDigit ch"
  shows "0 \<le> digitVal ch \<and> digitVal ch \<le> 9"
  using assms by (auto simp: isDigit_def digitVal_def)

text \<open>\<^verbatim>\<open>strconv.Atoi\<close> on one decimal digit.\<close>

lemma strconv_Atoi_digit:
  assumes "isDigit d"
  shows "strconv_Atoi [d] = Some (digitVal d)"
  using assms isDigit_chars [OF assms] digitVal_range [OF assms]
  by (simp add: strconv_Atoi_def Let_def)

lemma filter_upt_last:
  assumes "a \<le> i" "i < n" "P i" "\<forall>j. i < j \<and> j < n \<longrightarrow> \<not> P j"
  shows "filter P [a..<n] \<noteq> [] \<and> last (filter P [a..<n]) = i"
proof -
  have "[a..<n] = [a..<i] @ i # [Suc i..<n]"
    using assms(1,2) by (metis le_Suc_ex less_imp_le_nat upt_add_eq_append upt_conv_Cons)
  moreover have "filter P [Suc i..<n] = []"
    using assms(4) by (auto simp: filter_empty_conv)
  ultimately have "filter P [a..<n] = filter P [a..<i] @ [i]"
    using assms(3) by simp
  then show ?thesis by simp
qed

text \<open>The second capture of the query pattern is one decimal digit.\<close>

lemma queryRegex_Some:
  assumes "queryRegex m = Some (query, digit)"
  shows "\<exists>d. digit = [d] \<and> isDigit d"
  using assms
proof (induction m)
  case Nil
  then show ?case by simp
next
  case (Cons ch s)
  define l where "l = restOfLine (drop (length ''wisemonk query '') (ch # s))"
  define js where "js = queryRegex_ends l"
  show ?case
  proof (cases "take (length ''wisemonk query '') (ch # s) = ''wisemonk query '' \<and> js \<noteq> []")
    case False
    then have "queryRegex (ch # s) = queryRegex s"
      unfolding js_def l_def by (auto simp: Let_def)
    with Cons show ?thesis by simp
  next
    case True
    then have "queryRegex (ch # s) = Some (take (last js) l, [l ! Suc (last js)])"
      unfolding js_def l_def by (simp add: Let_def)
    with Cons.prems have d: "digit = [l ! Suc (last js)]" by simp
    have "last js \<in> set js"
      using True by simp
    then have "isDigit (l ! Suc (last js))"
      by (simp add: js_def queryRegex_ends_def)
    with d show ?thesis by blast
  qed
qed

lemma last_concat_lines:
  assumes "concat (map (\<lambda>t. f t @ [nl]) ts) \<noteq> []"
  shows "last (concat (map (\<lambda>t. f t @ [nl]) ts)) = nl"
proof (cases ts rule: rev_cases)
  case Nil
  with assms show ?thesis by simp
next
  case (snoc ts' t)
  then show ?thesis by simp
qed

lemma searchDiscourse_lines_not_unknown: "searchDiscourse_lines w ts \<noteq> searchReplyUnknown"
proof (cases "searchDiscourse_lines w ts = []")
  case True
  then show ?thesis by (simp add: searchReplyUnknown_def)
next
  case False
  have "searchDiscourse_lines w ts
    = concat (map (\<lambda>t. (conf_DiscPrefix w @ ''/t/'' @ st_Slug t @ ''/''
        @ showInt (st_Id t)) @ [CHR 0x0A]) ts)"
    by (simp add: searchDiscourse_lines_def)
  with False have "last (searchDiscourse_lines w ts) = CHR 0x0A"
    using last_concat_lines
      [of "\<lambda>t. conf_DiscPrefix w @ ''/t/'' @ st_Slug t @ ''/'' @ showInt (st_Id t)"
        "CHR 0x0A" ts]
    by simp
  moreover have "last searchReplyUnknown = CHR ''.''"
    by (simp add: searchReplyUnknown_def)
  ultimately show ?thesis by auto
qed

text \<open>\<open>searchDiscourse\<close> never sends the reply of its branch for a failed \<^verbatim>\<open>Atoi\<close>.\<close>

lemma searchDiscourse_never_unknown:
  assumes "searchDiscourse w c m = Inr out"
  shows "searchReplyUnknown \<notin> fst ` set out"
proof (cases "conf_DiscKey w = [] \<or> queryRegex m = None")
  case True
  with assms show ?thesis
    by (auto simp: searchDiscourse_def split: if_splits)
next
  case False
  then obtain query digit where q: "queryRegex m = Some (query, digit)"
    by auto
  then obtain d where d: "digit = [d]" "isDigit d"
    using queryRegex_Some by blast
  have a: "strconv_Atoi digit = Some (digitVal d)"
    using d strconv_Atoi_digit by simp
  have n: "''Sorry, I didn't find anything.'' \<noteq> searchReplyUnknown"
    by (simp add: searchReplyUnknown_def)
  show ?thesis
    using assms False q a n searchDiscourse_lines_not_unknown
      searchDiscourse_lines_not_unknown [THEN not_sym]
    by (auto simp: searchDiscourse_def Let_def split: if_splits sum.splits)
qed

lemma restOfLine_id:
  assumes "CHR 0x0A \<notin> set s"
  shows "restOfLine s = s"
  using assms by (auto simp: restOfLine_def)

text \<open>
  A query followed by a space and a run of digits: the first digit of the run is the
  bound, and the other digits are in neither capture.
\<close>

lemma queryRegex_digits:
  assumes q: "q \<noteq> []" "CHR 0x0A \<notin> set q"
    and ds: "list_all isDigit (d # ds)"
  shows "queryRegex (''wisemonk query '' @ q @ '' '' @ d # ds) = Some (q, [d])"
proof -
  define l where "l = q @ '' '' @ d # ds"
  have dig: "\<forall>x \<in> set (d # ds). isDigit x"
    using ds by (simp add: list_all_iff)
  then have nl: "CHR 0x0A \<notin> set l"
    using q(2) isDigit_chars(2) by (auto simp: l_def)
  have rest: "restOfLine l = l"
    using nl by (rule restOfLine_id)
  have len: "length l - 1 = Suc (length q + length ds)"
    by (simp add: l_def)
  have at: "l ! length q = CHR '' ''" "l ! Suc (length q) = d"
    by (simp_all add: l_def nth_append)
  have after: "\<not> (l ! j = CHR '' '' \<and> isDigit (l ! Suc j))"
    if "length q < j" "j < length l - 1" for j
  proof -
    have "l ! j = (d # ds) ! (j - Suc (length q))"
      using that by (simp add: l_def nth_append)
    moreover have "j - Suc (length q) < length (d # ds)"
      using that by (simp add: l_def)
    ultimately have "l ! j \<in> set (d # ds)"
      by (metis nth_mem)
    then show ?thesis using dig isDigit_chars(1) by blast
  qed
  have "filter (\<lambda>j. l ! j = CHR '' '' \<and> isDigit (l ! Suc j)) [1..<length l - 1] \<noteq> []
      \<and> last (filter (\<lambda>j. l ! j = CHR '' '' \<and> isDigit (l ! Suc j)) [1..<length l - 1])
        = length q"
  proof (rule filter_upt_last)
    show "1 \<le> length q" using q(1) by (cases q) simp_all
    show "length q < length l - 1" using len by simp
    show "l ! length q = CHR '' '' \<and> isDigit (l ! Suc (length q))"
      using at dig by simp
    show "\<forall>j. length q < j \<and> j < length l - 1 \<longrightarrow>
        \<not> (l ! j = CHR '' '' \<and> isDigit (l ! Suc j))"
      using after by blast
  qed
  then have js: "queryRegex_ends l \<noteq> []" "last (queryRegex_ends l) = length q"
    by (simp_all add: queryRegex_ends_def)
  have "queryRegex (''wisemonk query '' @ l) =
      Some (take (last (queryRegex_ends l)) l, [l ! Suc (last (queryRegex_ends l))])"
    using js(1) rest by (simp add: Let_def)
  then have "queryRegex (''wisemonk query '' @ l) = Some (q, [d])"
    using js(2) at(2) by (simp add: l_def)
  then show ?thesis by (simp add: l_def)
qed

text \<open>
  Claim C9, as the code has it. Whenever the query pattern matches, its second capture
  is one decimal digit, which \<^verbatim>\<open>strconv.Atoi\<close> parses to its value, between 0 and
  9; so \<open>searchDiscourse\<close> never sends the reply of its branch for a failed parse. The
  pattern is not anchored at its end: when the text ends in a query, a space and a run
  of digits, the bound is the first digit of the run, the query is the text before the
  space, and the other digits of the run are in neither capture.
\<close>

theorem queryRegex_one_digit:
  "(\<forall>query digit. queryRegex m = Some (query, digit) \<longrightarrow>
      (\<exists>d. digit = [d] \<and> isDigit d \<and> strconv_Atoi digit = Some (digitVal d)
           \<and> 0 \<le> digitVal d \<and> digitVal d \<le> 9))
   \<and> (\<forall>out. searchDiscourse w c m = Inr out \<longrightarrow> searchReplyUnknown \<notin> fst ` set out)
   \<and> (\<forall>q d ds. q \<noteq> [] \<and> CHR 0x0A \<notin> set q \<and> list_all isDigit (d # ds) \<longrightarrow>
      queryRegex (''wisemonk query '' @ q @ '' '' @ d # ds) = Some (q, [d]))"
proof (intro conjI allI impI)
  fix query digit
  assume "queryRegex m = Some (query, digit)"
  then obtain d where d: "digit = [d]" "isDigit d"
    using queryRegex_Some by blast
  then show "\<exists>d. digit = [d] \<and> isDigit d \<and> strconv_Atoi digit = Some (digitVal d)
           \<and> 0 \<le> digitVal d \<and> digitVal d \<le> 9"
    using strconv_Atoi_digit [OF d(2)] digitVal_range [OF d(2)] by simp
next
  fix out
  assume "searchDiscourse w c m = Inr out"
  then show "searchReplyUnknown \<notin> fst ` set out"
    by (rule searchDiscourse_never_unknown)
next
  fix q d ds
  assume "q \<noteq> [] \<and> CHR 0x0A \<notin> set q \<and> list_all isDigit (d # ds)"
  then show "queryRegex (''wisemonk query '' @ q @ '' '' @ d # ds) = Some (q, [d])"
    using queryRegex_digits by blast
qed

theorem queryRegex_one_digit_witness:
  "queryRegex ''wisemonk query go channels 35'' = Some (''go channels'', ''3'')
   \<and> strconv_Atoi ''3'' = Some 3
   \<and> searchDiscourse testEnv testCounter ''wisemonk query go channels 35''
       = Inr [(''Sorry, I didn't find anything.'', ''general'')]
   \<and> searchReplyUnknown \<noteq> ''Sorry, I didn't find anything.''"
proof -
  note th = queryRegex_one_digit [of "''wisemonk query go channels 35''" testEnv testCounter]
  have a: "''go channels'' \<noteq> [] \<and> CHR 0x0A \<notin> set ''go channels''
      \<and> list_all isDigit (CHR ''3'' # ''5'')"
    by code_simp
  from th a have q: "queryRegex (''wisemonk query '' @ ''go channels'' @ '' '' @ CHR ''3'' # ''5'')
      = Some (''go channels'', [CHR ''3''])"
    by blast
  then have q': "queryRegex ''wisemonk query go channels 35'' = Some (''go channels'', ''3'')"
    by simp
  with th obtain d where "''3'' = [d]" "strconv_Atoi ''3'' = Some (digitVal d)"
    by blast
  then have "strconv_Atoi ''3'' = Some (digitVal CHR ''3'')"
    by simp
  then have n: "strconv_Atoi ''3'' = Some 3"
    by (simp add: digitVal_def)
  have s: "searchDiscourse testEnv testCounter ''wisemonk query go channels 35''
       = Inr [(''Sorry, I didn't find anything.'', ''general'')]"
    by code_simp
  with th have "searchReplyUnknown
      \<notin> fst ` set [(''Sorry, I didn't find anything.'', ''general'')]"
    by blast
  then have "searchReplyUnknown \<noteq> ''Sorry, I didn't find anything.''"
    by simp
  with q' n s show ?thesis by blast
qed

text \<open>
  Claim C9 as it is written says that a count of several digits has all but its last
  digit absorbed into the query. In \<^verbatim>\<open>wisemonk query foo 12\<close> the query is
  \<^verbatim>\<open>foo\<close> and the bound is 1: the match ends at the first digit, and the digit 2
  is dropped.
\<close>

theorem queryRegex_two_digits:
  "queryRegex ''wisemonk query foo 12'' = Some (''foo'', ''1'')
   \<and> strconv_Atoi ''1'' = Some 1"
  by code_simp

end
